theory Spec2Isabelle
  imports
    Main
    "HOL-Library.Multiset"
    "HOL-Library.Signed_Division"
    "HOL-Library.Product_Lexorder"
begin

section \<open>The coin database of txdb.cpp\<close>

text \<open>
  A shallow embedding of \<^verbatim>\<open>src/txdb.cpp\<close>: the coin store with its secondary
  indices (\<^verbatim>\<open>CCoinsViewDB::BatchWrite\<close>), the balance query
  (\<^verbatim>\<open>CCoinsViewDB::GetAccountBalance\<close>) and the staking pool snapshot
  (\<^verbatim>\<open>CCoinsViewDB::TrySnapshotStakingPoolStatus\<close>).

  Amounts (\<^verbatim>\<open>CAmount\<close>, a signed 64 bit integer) are integers; signed overflow is
  undefined in the source, so the model covers the runs without it. Hashes
  (\<^verbatim>\<open>uint256\<close>) and account ids (\<^verbatim>\<open>CAccountID\<close>, 160 bit) are natural numbers
  with \<open>0\<close> for the null value; their order stands for the bytewise order of the
  source.
\<close>

subsection \<open>Data\<close>

type_synonym uint256 = nat
type_synonym CAccountID = nat
type_synonym CAmount = int
type_synonym COutPoint = "uint256 \<times> nat"

datatype Payload =
    NoPayload
  | BindPlotterPayload nat
  | PointPayload CAccountID CAmount
  | StakingPayload CAccountID CAmount nat

text \<open>
  Modelled from the spec: the class \<^verbatim>\<open>Coin\<close> (declared in coins.h, which is not
  among the sources). The fields are the ones txdb.cpp reads: \<^verbatim>\<open>out.nValue\<close>,
  \<^verbatim>\<open>nHeight\<close>, the coinbase flag, \<^verbatim>\<open>outAccountID\<close> (null for an unowned
  output), the payload variant and the answer of \<^verbatim>\<open>IsSpent()\<close>.
\<close>

record Coin =
  nValue :: CAmount
  nHeight :: nat
  fCoinBase :: bool
  outAccountID :: CAccountID
  payload :: Payload
  IsSpent :: bool

definition IsBindPlotter :: "Coin \<Rightarrow> bool" where
  "IsBindPlotter c = (case payload c of BindPlotterPayload _ \<Rightarrow> True | _ \<Rightarrow> False)"

definition IsPoint :: "Coin \<Rightarrow> bool" where
  "IsPoint c = (case payload c of PointPayload _ _ \<Rightarrow> True | _ \<Rightarrow> False)"

definition IsStaking :: "Coin \<Rightarrow> bool" where
  "IsStaking c = (case payload c of StakingPayload _ _ _ \<Rightarrow> True | _ \<Rightarrow> False)"

fun GetReceiverID :: "Payload \<Rightarrow> CAccountID" where
  "GetReceiverID (PointPayload r _) = r"
| "GetReceiverID (StakingPayload r _ _) = r"
| "GetReceiverID _ = 0"

fun GetAmount :: "Payload \<Rightarrow> CAmount" where
  "GetAmount (PointPayload _ a) = a"
| "GetAmount (StakingPayload _ a _) = a"
| "GetAmount _ = 0"

text \<open>
  An entry of the cache's \<^verbatim>\<open>CCoinsMap\<close>: the coin and whether
  \<^verbatim>\<open>flags & CCoinsCacheEntry::DIRTY\<close> is set. The map is an unordered map keyed by
  outpoint; it is the list of its entries in iteration order.
\<close>

record CCoinsCacheEntry =
  coin :: Coin
  DIRTY :: bool

type_synonym CCoinsMap = "(COutPoint \<times> CCoinsCacheEntry) list"

datatype StakingPool = StakingPool (poolID: CAccountID) (genesisOutpoint: COutPoint) (poolStakeAmount: CAmount)

datatype StakingPoolUser =
  StakingPoolUser (accountID: CAccountID) (stakeAmount: CAmount) (withdrawableAmount: CAmount)

subsection \<open>Keys, values and the store\<close>

text \<open>
  The one byte prefixes of the six secondary indices. Their keys all serialise as
  \<^verbatim>\<open>AccountEntry\<close> does: prefix, account id, outpoint.
\<close>

datatype DBPrefix =
    DB_COIN_INDEX
  | DB_COIN_BINDPLOTTER
  | DB_COIN_POINT_SEND
  | DB_COIN_POINT_RECEIVE
  | DB_COIN_STAKING_SEND
  | DB_COIN_STAKING_RECEIVE

datatype DBKey =
    CoinEntry COutPoint
  | AccountEntry DBPrefix COutPoint CAccountID
  | DB_BEST_BLOCK
  | DB_HEAD_BLOCKS
  | StakingPoolEntry uint256
  | StakingPoolUsersEntry uint256 CAccountID

abbreviation CoinIndexEntry :: "COutPoint \<Rightarrow> CAccountID \<Rightarrow> DBKey" where
  "CoinIndexEntry \<equiv> AccountEntry DB_COIN_INDEX"

abbreviation BindPlotterEntry :: "COutPoint \<Rightarrow> CAccountID \<Rightarrow> DBKey" where
  "BindPlotterEntry \<equiv> AccountEntry DB_COIN_BINDPLOTTER"

abbreviation PointSendEntry :: "COutPoint \<Rightarrow> CAccountID \<Rightarrow> DBKey" where
  "PointSendEntry \<equiv> AccountEntry DB_COIN_POINT_SEND"

abbreviation PointReceiveEntry :: "COutPoint \<Rightarrow> CAccountID \<Rightarrow> DBKey" where
  "PointReceiveEntry \<equiv> AccountEntry DB_COIN_POINT_RECEIVE"

abbreviation StakingSendEntry :: "COutPoint \<Rightarrow> CAccountID \<Rightarrow> DBKey" where
  "StakingSendEntry \<equiv> AccountEntry DB_COIN_STAKING_SEND"

abbreviation StakingReceiveEntry :: "COutPoint \<Rightarrow> CAccountID \<Rightarrow> DBKey" where
  "StakingReceiveEntry \<equiv> AccountEntry DB_COIN_STAKING_RECEIVE"

datatype DBValue =
    VCoin Coin
  | VAmount CAmount
  | VBindPlotter nat nat
  | VHash uint256
  | VHashes "uint256 list"
  | VPools "StakingPool list"
  | VUsers "StakingPoolUser list"

datatype BatchOp = OpWrite DBKey DBValue | OpErase DBKey

text \<open>Who handed a batch to \<^verbatim>\<open>db.WriteBatch\<close>: BatchWrite's batch or the snapshot's own.\<close>

datatype Writer = ByBatchWrite | BySnapshot

text \<open>
  The key-value store (the \<^verbatim>\<open>CDBWrapper db\<close> member; LevelDB itself is outside the
  sources). \<open>store\<close> holds the records, one per key; the order of the list carries
  no meaning, a cursor sorts (see \<open>scan_prefix\<close>). \<open>written\<close> lists the batches handed
  to \<^verbatim>\<open>WriteBatch\<close> so far, oldest first. A physical write is taken to succeed.
\<close>

record CDBWrapper =
  store :: "(DBKey \<times> DBValue) list"
  written :: "(Writer \<times> BatchOp list) list"

definition db_Read :: "CDBWrapper \<Rightarrow> DBKey \<Rightarrow> DBValue option" where
  "db_Read db k = map_of (store db) k"

definition db_Exists :: "CDBWrapper \<Rightarrow> DBKey \<Rightarrow> bool" where
  "db_Exists db k = (map_of (store db) k \<noteq> None)"

fun put :: "DBKey \<Rightarrow> DBValue \<Rightarrow> (DBKey \<times> DBValue) list \<Rightarrow> (DBKey \<times> DBValue) list" where
  "put k v [] = [(k, v)]"
| "put k v (p # ps) = (if fst p = k then (k, v) # ps else p # put k v ps)"

definition del :: "DBKey \<Rightarrow> (DBKey \<times> DBValue) list \<Rightarrow> (DBKey \<times> DBValue) list" where
  "del k ps = filter (\<lambda>p. fst p \<noteq> k) ps"

fun apply_op :: "BatchOp \<Rightarrow> (DBKey \<times> DBValue) list \<Rightarrow> (DBKey \<times> DBValue) list" where
  "apply_op (OpWrite k v) s = put k v s"
| "apply_op (OpErase k) s = del k s"

definition WriteBatch :: "Writer \<Rightarrow> BatchOp list \<Rightarrow> CDBWrapper \<Rightarrow> CDBWrapper" where
  "WriteBatch w batch db =
     db\<lparr>store := fold apply_op batch (store db), written := written db @ [(w, batch)]\<rparr>"

text \<open>
  A cursor positioned by \<^verbatim>\<open>Seek\<close> on the least key of a prefix (and account) and
  read until the prefix (or account) changes: the records of that prefix in the order of
  their keys. A key is serialised as the prefix, the account, the outpoint's hash and the
  outpoint's index (lines 77 to 101), so the order within a prefix is by account, then by
  hash, then by index. The byte encodings of the three are outside the sources; each is
  compared as a number.
\<close>

definition scan_prefix :: "CDBWrapper \<Rightarrow> DBPrefix \<Rightarrow> (COutPoint \<times> CAccountID \<times> DBValue) list" where
  "scan_prefix db p =
     sort_key (\<lambda>r. (fst (snd r), fst r))
       (concat (map (\<lambda>kv. case fst kv of AccountEntry q outpoint a \<Rightarrow>
                                    (if q = p then [(outpoint, a, snd kv)] else [])
                                  | _ \<Rightarrow> []) (store db)))"

definition scan_account :: "CDBWrapper \<Rightarrow> DBPrefix \<Rightarrow> CAccountID \<Rightarrow> (COutPoint \<times> DBValue) list" where
  "scan_account db p account =
     map (\<lambda>r. (fst r, snd (snd r))) (filter (\<lambda>r. fst (snd r) = account) (scan_prefix db p))"

subsection \<open>Errors, parameters and the block index\<close>

datatype error = AssertionFailed | RuntimeError string | NullPointer | DivisionByZero

record Params =
  nSaturnActiveHeight :: int
  nSaturnEpockBlocks :: int
  SaturnStakingGenesisID :: CAccountID

text \<open>
  A \<^verbatim>\<open>CBlockIndex*\<close> is the list of the block index entries reached through
  \<^verbatim>\<open>pprev\<close>, the pointed-to block first; the empty list is the null pointer.
  \<open>minerRewardID\<close> is \<^verbatim>\<open>ExtractAccountID(minerRewardTxOut.scriptPubKey)\<close>.
\<close>

record CBlockIndex =
  GetBlockHash :: uint256
  blockHeight :: int
  minerRewardID :: CAccountID

text \<open>
  What txdb.cpp takes from outside the sources: the consensus parameters, the
  \<^verbatim>\<open>-dbbatchsize\<close> argument, the batch's size estimate, the block index lookup, the
  protocol constants and the helper functions of the staking rules.
\<close>

record Env =
  consensus :: Params
  dbbatchsize :: nat
  SizeEstimate :: "BatchOp list \<Rightarrow> nat"
  LookupBlockIndex :: "uint256 \<Rightarrow> CBlockIndex list"
  GetInitialStakingPoolAmount :: "int \<Rightarrow> CAmount"
  GetBlockStakingPoolSubsidy :: "int \<Rightarrow> CAmount"
  MIN_WITHDRAWABLE_AMOUNT :: CAmount
  BINDPLOTTER_LOCKAMOUNT :: CAmount
  CreateStakePendingCoinOutPoint :: "uint256 \<Rightarrow> CAccountID \<Rightarrow> CAccountID \<Rightarrow> COutPoint"

text \<open>
  Modelled from the spec: \<^verbatim>\<open>CalcStakePoolUserReward\<close> (defined outside the sources),
  the pro-rata share \<^verbatim>\<open>reward * userStake / totalStake\<close> in exact integer arithmetic,
  the quotient truncated.
\<close>

definition CalcStakePoolUserReward :: "CAmount \<Rightarrow> CAmount \<Rightarrow> CAmount \<Rightarrow> CAmount" where
  "CalcStakePoolUserReward reward userStake totalStake = (reward * userStake) sdiv totalStake"

subsection \<open>BatchWrite\<close>

definition GetBestBlock :: "CDBWrapper \<Rightarrow> uint256" where
  "GetBestBlock db = (case db_Read db DB_BEST_BLOCK of Some (VHash h) \<Rightarrow> h | _ \<Rightarrow> 0)"

definition GetHeadBlocks :: "CDBWrapper \<Rightarrow> uint256 list" where
  "GetHeadBlocks db = (case db_Read db DB_HEAD_BLOCKS of Some (VHashes hs) \<Rightarrow> hs | _ \<Rightarrow> [])"

text \<open>Lines 430 to 438: the previous tip, or the abort of the assertion on the marker.\<close>

definition old_tip_of :: "CDBWrapper \<Rightarrow> uint256 \<Rightarrow> error + uint256" where
  "old_tip_of db hashBlock =
     (let old_tip = GetBestBlock db in
      if old_tip = 0 then
        (let old_heads = GetHeadBlocks db in
         if length old_heads = 2 then
           (if old_heads ! 0 = hashBlock then Inr (old_heads ! 1) else Inl AssertionFailed)
         else Inr old_tip)
      else Inr old_tip)"

text \<open>Lines 449 to 488: what one dirty entry appends to the batch.\<close>

definition coin_ops :: "COutPoint \<Rightarrow> Coin \<Rightarrow> BatchOp list" where
  "coin_ops outpoint c =
     (if IsSpent c then
        OpErase (CoinEntry outpoint) #
        (if outAccountID c \<noteq> 0 then
           OpErase (CoinIndexEntry outpoint (outAccountID c)) #
           (if IsBindPlotter c then [OpErase (BindPlotterEntry outpoint (outAccountID c))]
            else if IsPoint c then
              [OpErase (PointSendEntry outpoint (outAccountID c)),
               OpErase (PointReceiveEntry outpoint (GetReceiverID (payload c)))]
            else if IsStaking c then
              [OpErase (StakingSendEntry outpoint (outAccountID c)),
               OpErase (StakingReceiveEntry outpoint (GetReceiverID (payload c)))]
            else [])
         else [])
      else
        OpWrite (CoinEntry outpoint) (VCoin c) #
        (if outAccountID c \<noteq> 0 then
           OpWrite (CoinIndexEntry outpoint (outAccountID c)) (VAmount (nValue c)) #
           (if IsBindPlotter c then
              (case payload c of
                 BindPlotterPayload plotterId \<Rightarrow>
                   [OpWrite (BindPlotterEntry outpoint (outAccountID c)) (VBindPlotter plotterId (nHeight c))]
               | _ \<Rightarrow> [])
            else if IsPoint c then
              [OpWrite (PointSendEntry outpoint (outAccountID c)) (VAmount (nValue c)),
               OpWrite (PointReceiveEntry outpoint (GetReceiverID (payload c))) (VAmount (GetAmount (payload c)))]
            else if IsStaking c then
              [OpWrite (StakingSendEntry outpoint (outAccountID c)) (VAmount (nValue c)),
               OpWrite (StakingReceiveEntry outpoint (GetReceiverID (payload c))) (VAmount (GetAmount (payload c)))]
            else [])
         else []))"

text \<open>
  Lines 447 to 507: the loop over the map. Every entry is looked at, a dirty one
  appends its operations, and after each entry the batch is written and cleared when its
  estimate exceeds the batch size (\<^verbatim>\<open>-dbcrashratio\<close> is at its default 0).
\<close>

fun BatchWrite_loop :: "Env \<Rightarrow> CCoinsMap \<Rightarrow> BatchOp list \<Rightarrow> CDBWrapper \<Rightarrow> BatchOp list \<times> CDBWrapper" where
  "BatchWrite_loop env [] batch db = (batch, db)"
| "BatchWrite_loop env (it # rest) batch db =
     (let batch' = (if DIRTY (snd it) then batch @ coin_ops (fst it) (coin (snd it)) else batch) in
      if SizeEstimate env batch' > dbbatchsize env
      then BatchWrite_loop env rest [] (WriteBatch ByBatchWrite batch' db)
      else BatchWrite_loop env rest batch' db)"

subsection \<open>The staking pool snapshot\<close>

datatype CUserStatus = CUserStatus (userStake: CAmount) (userWithdrawable: CAmount)

datatype CPoolStatus = CPoolStatus (prevStake: CAmount) (rewardAmount: CAmount)

type_synonym CUserStatusMap = "(CAccountID \<times> CUserStatus) list"
type_synonym CPoolUserStatusMap = "(CAccountID \<times> CUserStatusMap) list"
type_synonym CPoolStatusMap = "(CAccountID \<times> CPoolStatus) list"

text \<open>
  An \<^verbatim>\<open>unordered_map\<close> is the list of its entries in iteration order, the keys
  distinct. \<open>at k d f m\<close> is \<^verbatim>\<open>m[k] = f(m[k])\<close>: \<^verbatim>\<open>operator[]\<close> inserts
  the default \<open>d\<close> for a new key first.
\<close>

fun at :: "'k \<Rightarrow> 'v \<Rightarrow> ('v \<Rightarrow> 'v) \<Rightarrow> ('k \<times> 'v) list \<Rightarrow> ('k \<times> 'v) list" where
  "at k d f [] = [(k, f d)]"
| "at k d f (p # ps) = (if fst p = k then (k, f (snd p)) # ps else p # at k d f ps)"

definition get_or :: "'v \<Rightarrow> ('k \<times> 'v) list \<Rightarrow> 'k \<Rightarrow> 'v" where
  "get_or d m k = (case map_of m k of Some v \<Rightarrow> v | None \<Rightarrow> d)"

definition uint32 :: "int \<Rightarrow> nat" where
  "uint32 x = nat (x mod 2 ^ 32)"

text \<open>
  Lines 991 to 1018: one staking-receive index record after the other. The coin is read
  from the primary store; a pool's genesis coin enables the pool, another coin that is
  still locked at the epoch height adds to its sender's stake in the pool.
\<close>

fun load_staking ::
  "Env \<Rightarrow> CDBWrapper \<Rightarrow> int \<Rightarrow> COutPoint list \<Rightarrow> CPoolUserStatusMap \<Rightarrow> (CAccountID \<times> COutPoint) list
     \<Rightarrow> error + (CPoolUserStatusMap \<times> (CAccountID \<times> COutPoint) list)" where
  "load_staking env db h [] epochPoolUsers enabledPools = Inr (epochPoolUsers, enabledPools)"
| "load_staking env db h (outpoint # rest) epochPoolUsers enabledPools =
     (case db_Read db (CoinEntry outpoint) of
        Some (VCoin c) \<Rightarrow>
          (case payload c of
             StakingPayload receiverID amount lockBlocks \<Rightarrow>
               if outAccountID c = SaturnStakingGenesisID (consensus env) then
                 (if nValue c < GetInitialStakingPoolAmount env (int (nHeight c))
                  then load_staking env db h rest epochPoolUsers enabledPools
                  else load_staking env db h rest epochPoolUsers
                         (at receiverID (0, 0) (\<lambda>_. outpoint) enabledPools))
               else
                 (if uint32 (int (nHeight c) + int lockBlocks) < uint32 h
                  then load_staking env db h rest epochPoolUsers enabledPools
                  else load_staking env db h rest
                         (at receiverID []
                            (at (outAccountID c) (CUserStatus 0 0)
                               (\<lambda>u. CUserStatus (userStake u + amount) (userWithdrawable u)))
                            epochPoolUsers)
                         enabledPools)
           | _ \<Rightarrow> Inl (RuntimeError ''Database read invalid staking coin''))
      | _ \<Rightarrow> Inl (RuntimeError ''Database read invalid staking coin''))"

text \<open>Lines 1021 to 1027: pools that are not enabled lose their users.\<close>

definition filter_pools :: "(CAccountID \<times> COutPoint) list \<Rightarrow> CPoolUserStatusMap \<Rightarrow> CPoolUserStatusMap" where
  "filter_pools enabledPools epochPoolUsers =
     filter (\<lambda>it. map_of enabledPools (fst it) \<noteq> None) epochPoolUsers"

text \<open>
  Lines 1035 to 1039: the walk back over the blocks of the epoch, crediting each block's
  staking pool subsidy to the account of its miner reward. It returns the block the
  pointer ends on.
\<close>

fun sum_rewards :: "Env \<Rightarrow> nat \<Rightarrow> CBlockIndex list \<Rightarrow> CPoolStatusMap \<Rightarrow> error + (CPoolStatusMap \<times> CBlockIndex list)" where
  "sum_rewards env 0 chain st = Inr (st, chain)"
| "sum_rewards env (Suc i) [] st = Inl NullPointer"
| "sum_rewards env (Suc i) (b # prev) st =
     sum_rewards env i prev
       (at (minerRewardID b) (CPoolStatus 0 0)
          (\<lambda>s. CPoolStatus (prevStake s) (rewardAmount s + GetBlockStakingPoolSubsidy env (blockHeight b))) st)"

text \<open>Lines 1061 to 1081: one user of the previous epoch's list of the pool.\<close>

definition load_prev_user ::
  "Env \<Rightarrow> CDBWrapper \<Rightarrow> uint256 \<Rightarrow> CAccountID \<Rightarrow> CPoolStatus \<Rightarrow> CAmount \<Rightarrow> StakingPoolUser
     \<Rightarrow> CUserStatusMap \<Rightarrow> CUserStatusMap" where
  "load_prev_user env db prevEpochHash pool poolState prevEpochPoolstakeAmount preEpochPoolUser poolUsers =
     (case map_of poolUsers (accountID preEpochPoolUser) of
        None \<Rightarrow> poolUsers
      | Some userStatus \<Rightarrow>
          (let userID = accountID preEpochPoolUser;
               w1 = (if withdrawableAmount preEpochPoolUser \<ge> MIN_WITHDRAWABLE_AMOUNT env then
                       (if db_Exists db (CoinEntry (CreateStakePendingCoinOutPoint env prevEpochHash pool userID))
                        then withdrawableAmount preEpochPoolUser
                        else userWithdrawable userStatus)
                     else withdrawableAmount preEpochPoolUser);
               w2 = (if rewardAmount poolState > 0 \<and> prevEpochPoolstakeAmount > 0
                     then w1 + CalcStakePoolUserReward (rewardAmount poolState)
                                 (stakeAmount preEpochPoolUser) prevEpochPoolstakeAmount
                     else w1)
           in at userID (CUserStatus 0 0) (\<lambda>u. CUserStatus (userStake u) w2) poolUsers))"

text \<open>Lines 1051 to 1084: every pool of the new epoch against the previous epoch's lists.\<close>

definition load_prev_pool ::
  "Env \<Rightarrow> CDBWrapper \<Rightarrow> uint256 \<Rightarrow> CPoolStatusMap \<Rightarrow> CAmount \<Rightarrow> CAccountID \<times> CUserStatusMap
     \<Rightarrow> CAccountID \<times> CUserStatusMap" where
  "load_prev_pool env db prevEpochHash prevEpochPoolStatus prevEpochPoolstakeAmount itPool =
     (let poolState = get_or (CPoolStatus 0 0) prevEpochPoolStatus (fst itPool) in
      case db_Read db (StakingPoolUsersEntry prevEpochHash (fst itPool)) of
        Some (VUsers preEpochPoolUsers) \<Rightarrow>
          (fst itPool,
           fold (load_prev_user env db prevEpochHash (fst itPool) poolState prevEpochPoolstakeAmount)
             preEpochPoolUsers (snd itPool))
      | _ \<Rightarrow> itPool)"

text \<open>Lines 1031 to 1086: the previous epoch's rewards and pending amounts.\<close>

definition load_prev_epoch ::
  "Env \<Rightarrow> CDBWrapper \<Rightarrow> CBlockIndex list \<Rightarrow> CPoolUserStatusMap \<Rightarrow> error + CPoolUserStatusMap" where
  "load_prev_epoch env db pEpochInitIndex epochPoolUsers =
     (if blockHeight (hd pEpochInitIndex)
           \<ge> nSaturnActiveHeight (consensus env) + nSaturnEpockBlocks (consensus env) then
        (case sum_rewards env (nat (nSaturnEpockBlocks (consensus env))) pEpochInitIndex [] of
           Inl e \<Rightarrow> Inl e
         | Inr (rewards, []) \<Rightarrow> Inl NullPointer
         | Inr (rewards, pPrevEpochInitIndex # _) \<Rightarrow>
             (let prevEpochHash = GetBlockHash pPrevEpochInitIndex in
              case db_Read db (StakingPoolEntry prevEpochHash) of
                Some (VPools prevEpochPools) \<Rightarrow>
                  if prevEpochPools \<noteq> [] then
                    (let prevEpochPoolstakeAmount = sum_list (map poolStakeAmount prevEpochPools);
                         prevEpochPoolStatus =
                           fold (\<lambda>pool. at (poolID pool) (CPoolStatus 0 0)
                                   (\<lambda>s. CPoolStatus (poolStakeAmount pool) (rewardAmount s)))
                             prevEpochPools rewards
                     in Inr (map (load_prev_pool env db prevEpochHash prevEpochPoolStatus
                                    prevEpochPoolstakeAmount) epochPoolUsers))
                  else Inr epochPoolUsers
              | _ \<Rightarrow> Inr epochPoolUsers))
      else Inr epochPoolUsers)"

text \<open>
  \<^verbatim>\<open>std::sort\<close> with a comparison: sorting by insertion. Where no two elements are
  equivalent under the comparison, every sorting algorithm gives this list.
\<close>

fun insort_by :: "('a \<Rightarrow> 'a \<Rightarrow> bool) \<Rightarrow> 'a \<Rightarrow> 'a list \<Rightarrow> 'a list" where
  "insort_by lt x [] = [x]"
| "insort_by lt x (y # ys) = (if lt y x then y # insort_by lt x ys else x # y # ys)"

definition std_sort :: "('a \<Rightarrow> 'a \<Rightarrow> bool) \<Rightarrow> 'a list \<Rightarrow> 'a list" where
  "std_sort lt xs = foldr (insort_by lt) xs []"

text \<open>Lines 1120 to 1124 and 1137 to 1141: the two comparisons, stake descending.\<close>

definition user_before :: "StakingPoolUser \<Rightarrow> StakingPoolUser \<Rightarrow> bool" where
  "user_before a b =
     (if stakeAmount a = stakeAmount b then accountID a < accountID b
      else stakeAmount a > stakeAmount b)"

definition pool_before :: "StakingPool \<Rightarrow> StakingPool \<Rightarrow> bool" where
  "pool_before a b =
     (if poolStakeAmount a = poolStakeAmount b then poolID a < poolID b
      else poolStakeAmount a > poolStakeAmount b)"

text \<open>
  Modelled from the spec: the coin \<^verbatim>\<open>Coin(txOut, nHeight, false)\<close> the snapshot
  writes for a withdrawable amount (the constructors of \<^verbatim>\<open>CTxOut\<close> and
  \<^verbatim>\<open>Coin\<close> are outside the sources): a live coin of that value and height whose
  script pays the user.
\<close>

definition pending_coin :: "CAmount \<Rightarrow> int \<Rightarrow> CAccountID \<Rightarrow> Coin" where
  "pending_coin amount h userID =
     \<lparr>nValue = amount, nHeight = nat h, fCoinBase = False, outAccountID = userID,
      payload = NoPayload, IsSpent = False\<rparr>"

definition flush_if_large :: "Env \<Rightarrow> BatchOp list \<Rightarrow> CDBWrapper \<Rightarrow> BatchOp list \<times> CDBWrapper" where
  "flush_if_large env batch db =
     (if SizeEstimate env batch > dbbatchsize env then ([], WriteBatch BySnapshot batch db)
      else (batch, db))"

text \<open>Lines 1103 to 1118: the users of one pool, in the iteration order of the map.\<close>

fun write_users ::
  "Env \<Rightarrow> uint256 \<Rightarrow> int \<Rightarrow> CAccountID \<Rightarrow> CUserStatusMap \<Rightarrow> StakingPoolUser list \<Rightarrow> CAmount
     \<Rightarrow> BatchOp list \<Rightarrow> CDBWrapper \<Rightarrow> StakingPoolUser list \<times> CAmount \<times> BatchOp list \<times> CDBWrapper" where
  "write_users env epochHash h pool [] users totalPoolStakeAmount batch db =
     (users, totalPoolStakeAmount, batch, db)"
| "write_users env epochHash h pool (it # rest) users totalPoolStakeAmount batch db =
     (let users' = users @ [StakingPoolUser (fst it) (userStake (snd it)) (userWithdrawable (snd it))];
          (batch', db') =
            (if userWithdrawable (snd it) \<ge> MIN_WITHDRAWABLE_AMOUNT env then
               flush_if_large env
                 (batch @ [OpWrite (CoinEntry (CreateStakePendingCoinOutPoint env epochHash pool (fst it)))
                             (VCoin (pending_coin (userWithdrawable (snd it)) h (fst it)))]) db
             else (batch, db))
      in write_users env epochHash h pool rest users' (totalPoolStakeAmount + userStake (snd it)) batch' db')"

text \<open>Lines 1095 to 1135: the pools, in the iteration order of the map.\<close>

fun write_pools ::
  "Env \<Rightarrow> uint256 \<Rightarrow> int \<Rightarrow> (CAccountID \<times> COutPoint) list \<Rightarrow> CPoolUserStatusMap \<Rightarrow> StakingPool list
     \<Rightarrow> BatchOp list \<Rightarrow> CDBWrapper \<Rightarrow> StakingPool list \<times> BatchOp list \<times> CDBWrapper" where
  "write_pools env epochHash h enabledPools [] pools batch db = (pools, batch, db)"
| "write_pools env epochHash h enabledPools (itPool # rest) pools batch db =
     (case write_users env epochHash h (fst itPool) (snd itPool) [] 0 batch db of
        (users, totalPoolStakeAmount, batch1, db1) \<Rightarrow>
          (case flush_if_large env
                  (batch1 @ [OpWrite (StakingPoolUsersEntry epochHash (fst itPool))
                               (VUsers (std_sort user_before users))]) db1 of
             (batch2, db2) \<Rightarrow>
               write_pools env epochHash h enabledPools rest
                 (pools @ [StakingPool (fst itPool) (get_or (0, 4294967295) enabledPools (fst itPool))
                             totalPoolStakeAmount])
                 batch2 db2))"

text \<open>Lines 1088 to 1146: the new epoch's records.\<close>

definition write_snapshot ::
  "Env \<Rightarrow> uint256 \<Rightarrow> int \<Rightarrow> (CAccountID \<times> COutPoint) list \<Rightarrow> CPoolUserStatusMap \<Rightarrow> CDBWrapper \<Rightarrow> CDBWrapper" where
  "write_snapshot env epochHash h enabledPools epochPoolUsers db =
     (case write_pools env epochHash h enabledPools epochPoolUsers [] [] db of
        (pools, batch, db1) \<Rightarrow>
          WriteBatch BySnapshot
            (batch @ [OpWrite (StakingPoolEntry epochHash) (VPools (std_sort pool_before pools))]) db1)"

definition TrySnapshotStakingPoolStatus :: "Env \<Rightarrow> CBlockIndex list \<Rightarrow> CDBWrapper \<Rightarrow> error + CDBWrapper" where
  "TrySnapshotStakingPoolStatus env pEpochInitIndex db =
     (case pEpochInitIndex of
        [] \<Rightarrow> Inl NullPointer
      | b # _ \<Rightarrow>
          if blockHeight b - nSaturnEpockBlocks (consensus env) * 2 < nSaturnActiveHeight (consensus env)
          then Inr db
          else if nSaturnEpockBlocks (consensus env) = 0 then Inl DivisionByZero
          else if blockHeight b smod nSaturnEpockBlocks (consensus env) \<noteq> 0 then Inr db
          else
            (case load_staking env db (blockHeight b)
                    (map fst (scan_prefix db DB_COIN_STAKING_RECEIVE)) [] [] of
               Inl e \<Rightarrow> Inl e
             | Inr (allPoolUsers, enabledPools) \<Rightarrow>
                 (case load_prev_epoch env db pEpochInitIndex (filter_pools enabledPools allPoolUsers) of
                    Inl e \<Rightarrow> Inl e
                  | Inr epochPoolUsers \<Rightarrow>
                      Inr (write_snapshot env (GetBlockHash b) (blockHeight b) enabledPools epochPoolUsers db))))"

text \<open>Lines 444 and 445, and lines 513 and 514: the first and the last operations of a commit.\<close>

definition marker_ops :: "uint256 \<Rightarrow> uint256 \<Rightarrow> BatchOp list" where
  "marker_ops hashBlock old_tip =
     [OpErase DB_BEST_BLOCK, OpWrite DB_HEAD_BLOCKS (VHashes [hashBlock, old_tip])]"

definition final_ops :: "uint256 \<Rightarrow> BatchOp list" where
  "final_ops hashBlock = [OpErase DB_HEAD_BLOCKS, OpWrite DB_BEST_BLOCK (VHash hashBlock)]"

text \<open>Lines 440 to 520: the commit, once the previous tip is known.\<close>

definition BatchWrite_from_tip :: "Env \<Rightarrow> CCoinsMap \<Rightarrow> uint256 \<Rightarrow> uint256 \<Rightarrow> CDBWrapper \<Rightarrow> error + CDBWrapper" where
  "BatchWrite_from_tip env mapCoins hashBlock old_tip db =
     (case BatchWrite_loop env mapCoins (marker_ops hashBlock old_tip) db of
        (batch, db1) \<Rightarrow>
          (case TrySnapshotStakingPoolStatus env (LookupBlockIndex env hashBlock) db1 of
             Inl e \<Rightarrow> Inl e
           | Inr db2 \<Rightarrow> Inr (WriteBatch ByBatchWrite (batch @ final_ops hashBlock) db2)))"

text \<open>Lines 422 to 520.\<close>

definition BatchWrite :: "Env \<Rightarrow> CCoinsMap \<Rightarrow> uint256 \<Rightarrow> CDBWrapper \<Rightarrow> error + CDBWrapper" where
  "BatchWrite env mapCoins hashBlock db =
     (if hashBlock = 0 then Inl AssertionFailed
      else
        (case old_tip_of db hashBlock of
           Inl e \<Rightarrow> Inl e
         | Inr old_tip \<Rightarrow> BatchWrite_from_tip env mapCoins hashBlock old_tip db))"

subsection \<open>GetAccountBalance\<close>

text \<open>
  \<^verbatim>\<open>CAmount\<close> is \<^verbatim>\<open>int64_t\<close>: a sum or difference that leaves the range wraps
  around.
\<close>

definition int64 :: "int \<Rightarrow> CAmount" where
  "int64 x = (x + 2 ^ 63) mod 2 ^ 64 - 2 ^ 63"

text \<open>Lines 636, 676, 717, 757, 799 and 839: \<^verbatim>\<open>assert(balance >= 0)\<close>.\<close>

definition assert_nonneg :: "CAmount \<Rightarrow> error + CAmount" where
  "assert_nonneg v = (if v \<ge> 0 then Inr v else Inl AssertionFailed)"

text \<open>
  A scan whose values are amounts (lines 611 to 619, 729 to 739, 811 to 821): the balance
  read and the \<^verbatim>\<open>selected\<close> map. A value that does not parse is the read error.
\<close>

fun read_amounts ::
  "(COutPoint \<times> DBValue) list \<Rightarrow> CAmount \<Rightarrow> (COutPoint \<times> CAmount) list
     \<Rightarrow> error + (CAmount \<times> (COutPoint \<times> CAmount) list)" where
  "read_amounts [] balance selected = Inr (balance, selected)"
| "read_amounts (r # rest) balance selected =
     (case snd r of
        VAmount v \<Rightarrow> read_amounts rest (int64 (balance + v)) (at (fst r) 0 (\<lambda>_. v) selected)
      | _ \<Rightarrow> Inl (RuntimeError ''Database read error''))"

text \<open>Lines 651 to 660: the bind plotter records, each worth the lock amount.\<close>

fun read_bindplotters ::
  "Env \<Rightarrow> (COutPoint \<times> DBValue) list \<Rightarrow> CAmount \<Rightarrow> COutPoint list \<Rightarrow> error + (CAmount \<times> COutPoint list)" where
  "read_bindplotters env [] balance selected = Inr (balance, selected)"
| "read_bindplotters env (r # rest) balance selected =
     (case snd r of
        VBindPlotter plotterId height \<Rightarrow>
          read_bindplotters env rest (int64 (balance + BINDPLOTTER_LOCKAMOUNT env))
            (List.insert (fst r) selected)
      | _ \<Rightarrow> Inl (RuntimeError ''Database read error''))"

text \<open>Lines 691 to 700 and 773 to 782: a send index, the amount read from the coin itself.\<close>

fun read_coins ::
  "CDBWrapper \<Rightarrow> (COutPoint \<times> DBValue) list \<Rightarrow> CAmount \<Rightarrow> (COutPoint \<times> CAmount) list
     \<Rightarrow> error + (CAmount \<times> (COutPoint \<times> CAmount) list)" where
  "read_coins db [] balance selected = Inr (balance, selected)"
| "read_coins db (r # rest) balance selected =
     (case db_Read db (CoinEntry (fst r)) of
        Some (VCoin c) \<Rightarrow>
          read_coins db rest (int64 (balance + nValue c)) (at (fst r) 0 (\<lambda>_. nValue c) selected)
      | _ \<Rightarrow> Inl (RuntimeError ''Database read error''))"

text \<open>Lines 622 to 635: the modified coins against the account index.\<close>

definition apply_available :: "CDBWrapper \<Rightarrow> CAccountID \<Rightarrow> COutPoint \<times> CCoinsCacheEntry \<Rightarrow> CAmount \<Rightarrow> CAmount" where
  "apply_available db account it availableBalance =
     (if \<not> DIRTY (snd it) then availableBalance
      else if outAccountID (coin (snd it)) = account then
        (if IsSpent (coin (snd it)) then
           (if db_Exists db (CoinIndexEntry (fst it) (outAccountID (coin (snd it))))
            then int64 (availableBalance - nValue (coin (snd it))) else availableBalance)
         else
           (if \<not> db_Exists db (CoinIndexEntry (fst it) (outAccountID (coin (snd it))))
            then int64 (availableBalance + nValue (coin (snd it))) else availableBalance))
      else availableBalance)"

text \<open>Lines 663 to 674.\<close>

definition apply_bindplotter ::
  "Env \<Rightarrow> CAccountID \<Rightarrow> COutPoint list \<Rightarrow> COutPoint \<times> CCoinsCacheEntry \<Rightarrow> CAmount \<Rightarrow> CAmount" where
  "apply_bindplotter env account selected it balance =
     (if \<not> DIRTY (snd it) \<or> \<not> IsBindPlotter (coin (snd it)) then balance
      else if fst it \<in> set selected then
        (if IsSpent (coin (snd it)) then int64 (balance - BINDPLOTTER_LOCKAMOUNT env) else balance)
      else if outAccountID (coin (snd it)) = account \<and> \<not> IsSpent (coin (snd it))
        then int64 (balance + BINDPLOTTER_LOCKAMOUNT env)
      else balance)"

text \<open>
  Lines 703 to 715 and 785 to 797 (the same text for the point and the staking payload,
  \<open>isKind\<close> being \<^verbatim>\<open>IsPoint\<close> or \<^verbatim>\<open>IsStaking\<close>).
\<close>

definition apply_send ::
  "(Coin \<Rightarrow> bool) \<Rightarrow> CAccountID \<Rightarrow> (COutPoint \<times> CAmount) list \<Rightarrow> COutPoint \<times> CCoinsCacheEntry
     \<Rightarrow> CAmount \<Rightarrow> CAmount" where
  "apply_send isKind account selected it balance =
     (if \<not> DIRTY (snd it) \<or> \<not> isKind (coin (snd it)) then balance
      else
        (case map_of selected (fst it) of
           Some v \<Rightarrow> (if IsSpent (coin (snd it)) then int64 (balance - v) else balance)
         | None \<Rightarrow>
             if outAccountID (coin (snd it)) = account \<and> \<not> IsSpent (coin (snd it))
             then int64 (balance + nValue (coin (snd it))) else balance))"

text \<open>Lines 742 to 755 and 824 to 837.\<close>

definition apply_receive ::
  "(Coin \<Rightarrow> bool) \<Rightarrow> CAccountID \<Rightarrow> (COutPoint \<times> CAmount) list \<Rightarrow> COutPoint \<times> CCoinsCacheEntry
     \<Rightarrow> CAmount \<Rightarrow> CAmount" where
  "apply_receive isKind account selected it balance =
     (if \<not> DIRTY (snd it) \<or> \<not> isKind (coin (snd it)) then balance
      else
        (case map_of selected (fst it) of
           Some v \<Rightarrow> (if IsSpent (coin (snd it)) then int64 (balance - v) else balance)
         | None \<Rightarrow>
             if GetReceiverID (payload (coin (snd it))) = account \<and> \<not> IsSpent (coin (snd it))
             then int64 (balance + GetAmount (payload (coin (snd it)))) else balance))"

text \<open>The six blocks of the function, each before its assertion.\<close>

definition raw_available :: "CDBWrapper \<Rightarrow> CAccountID \<Rightarrow> CCoinsMap \<Rightarrow> error + CAmount" where
  "raw_available db account mapModifiedCoins =
     (case read_amounts (scan_account db DB_COIN_INDEX account) 0 [] of
        Inl e \<Rightarrow> Inl e
      | Inr (balance, selected) \<Rightarrow> Inr (fold (apply_available db account) mapModifiedCoins balance))"

definition raw_bindplotter :: "Env \<Rightarrow> CDBWrapper \<Rightarrow> CAccountID \<Rightarrow> CCoinsMap \<Rightarrow> error + CAmount" where
  "raw_bindplotter env db account mapModifiedCoins =
     (case read_bindplotters env (scan_account db DB_COIN_BINDPLOTTER account) 0 [] of
        Inl e \<Rightarrow> Inl e
      | Inr (balance, selected) \<Rightarrow>
          Inr (fold (apply_bindplotter env account selected) mapModifiedCoins balance))"

definition raw_send ::
  "CDBWrapper \<Rightarrow> DBPrefix \<Rightarrow> (Coin \<Rightarrow> bool) \<Rightarrow> CAccountID \<Rightarrow> CCoinsMap \<Rightarrow> error + CAmount" where
  "raw_send db prefix isKind account mapModifiedCoins =
     (case read_coins db (scan_account db prefix account) 0 [] of
        Inl e \<Rightarrow> Inl e
      | Inr (balance, selected) \<Rightarrow>
          Inr (fold (apply_send isKind account selected) mapModifiedCoins balance))"

definition raw_receive ::
  "CDBWrapper \<Rightarrow> DBPrefix \<Rightarrow> (Coin \<Rightarrow> bool) \<Rightarrow> CAccountID \<Rightarrow> CCoinsMap \<Rightarrow> error + CAmount" where
  "raw_receive db prefix isKind account mapModifiedCoins =
     (case read_amounts (scan_account db prefix account) 0 [] of
        Inl e \<Rightarrow> Inl e
      | Inr (balance, selected) \<Rightarrow>
          Inr (fold (apply_receive isKind account selected) mapModifiedCoins balance))"

definition checked :: "error + CAmount \<Rightarrow> error + CAmount" where
  "checked r = (case r of Inl e \<Rightarrow> Inl e | Inr v \<Rightarrow> assert_nonneg v)"

text \<open>
  A two element in-out array (\<^verbatim>\<open>balancePoint\<close>, \<^verbatim>\<open>balanceStaking\<close>): a null
  pointer is \<open>None\<close>; an element that holds \<open>-1\<close> on entry is not computed and stays.
\<close>

definition balance_pair ::
  "CDBWrapper \<Rightarrow> DBPrefix \<Rightarrow> DBPrefix \<Rightarrow> (Coin \<Rightarrow> bool) \<Rightarrow> CAccountID \<Rightarrow> CCoinsMap
     \<Rightarrow> (CAmount \<times> CAmount) option \<Rightarrow> error + (CAmount \<times> CAmount) option" where
  "balance_pair db sendPrefix receivePrefix isKind account mapModifiedCoins balance =
     (case balance of
        None \<Rightarrow> Inr None
      | Some (b0, b1) \<Rightarrow>
          (case (if b0 \<noteq> - 1 then checked (raw_send db sendPrefix isKind account mapModifiedCoins)
                 else Inr b0) of
             Inl e \<Rightarrow> Inl e
           | Inr s \<Rightarrow>
               (case (if b1 \<noteq> - 1
                      then checked (raw_receive db receivePrefix isKind account mapModifiedCoins)
                      else Inr b1) of
                  Inl e \<Rightarrow> Inl e
                | Inr r \<Rightarrow> Inr (Some (s, r)))))"

text \<open>
  Lines 600 to 845. \<open>balanceBindPlotter\<close> tells whether the pointer of that name is
  not null. The result: the available balance returned, and the three out parameters.
\<close>

definition GetAccountBalance ::
  "Env \<Rightarrow> CDBWrapper \<Rightarrow> CAccountID \<Rightarrow> bool \<Rightarrow> (CAmount \<times> CAmount) option \<Rightarrow> (CAmount \<times> CAmount) option
     \<Rightarrow> CCoinsMap \<Rightarrow> error + (CAmount \<times> CAmount option \<times> (CAmount \<times> CAmount) option \<times> (CAmount \<times> CAmount) option)" where
  "GetAccountBalance env db account balanceBindPlotter balancePoint balanceStaking mapModifiedCoins =
     (case checked (raw_available db account mapModifiedCoins) of
        Inl e \<Rightarrow> Inl e
      | Inr availableBalance \<Rightarrow>
          (case (if balanceBindPlotter
                 then map_sum id Some (checked (raw_bindplotter env db account mapModifiedCoins))
                 else Inr None) of
             Inl e \<Rightarrow> Inl e
           | Inr bind \<Rightarrow>
               (case balance_pair db DB_COIN_POINT_SEND DB_COIN_POINT_RECEIVE IsPoint account
                       mapModifiedCoins balancePoint of
                  Inl e \<Rightarrow> Inl e
                | Inr point \<Rightarrow>
                    (case balance_pair db DB_COIN_STAKING_SEND DB_COIN_STAKING_RECEIVE IsStaking account
                            mapModifiedCoins balanceStaking of
                       Inl e \<Rightarrow> Inl e
                     | Inr staking \<Rightarrow> Inr (availableBalance, bind, point, staking)))))"

subsection \<open>Notions the properties are stated with\<close>

text \<open>The operations a delta contributes to the batch, in iteration order.\<close>

definition delta_ops :: "CCoinsMap \<Rightarrow> BatchOp list" where
  "delta_ops mapCoins =
     concat (map (\<lambda>it. if DIRTY (snd it) then coin_ops (fst it) (coin (snd it)) else []) mapCoins)"

text \<open>The batches BatchWrite itself handed to the store, oldest first.\<close>

definition own_batches :: "CDBWrapper \<Rightarrow> BatchOp list list" where
  "own_batches db = map snd (filter (\<lambda>b. fst b = ByBatchWrite) (written db))"

text \<open>
  The trigger in the words of the specification: at least two epoch lengths past the
  activation height, and a multiple of the epoch length.
\<close>

definition epoch_boundary :: "Params \<Rightarrow> int \<Rightarrow> bool" where
  "epoch_boundary p h =
     (h \<ge> nSaturnActiveHeight p + 2 * nSaturnEpockBlocks p \<and> h mod nSaturnEpockBlocks p = 0)"

text \<open>Every staking-receive index record leads to a staking coin of the primary store.\<close>

definition staking_index_sound :: "CDBWrapper \<Rightarrow> bool" where
  "staking_index_sound db =
     list_all (\<lambda>r. case db_Read db (CoinEntry (fst r)) of
                     Some (VCoin c) \<Rightarrow> IsStaking c
                   | _ \<Rightarrow> False) (scan_prefix db DB_COIN_STAKING_RECEIVE)"


text \<open>What the snapshot writes, in the order of its batch.\<close>

definition list_users :: "CUserStatusMap \<Rightarrow> StakingPoolUser list" where
  "list_users poolUsers =
     map (\<lambda>it. StakingPoolUser (fst it) (userStake (snd it)) (userWithdrawable (snd it))) poolUsers"

definition user_ops :: "Env \<Rightarrow> uint256 \<Rightarrow> int \<Rightarrow> CAccountID \<Rightarrow> CUserStatusMap \<Rightarrow> BatchOp list" where
  "user_ops env epochHash h pool poolUsers =
     concat (map (\<lambda>it. if userWithdrawable (snd it) \<ge> MIN_WITHDRAWABLE_AMOUNT env
                       then [OpWrite (CoinEntry (CreateStakePendingCoinOutPoint env epochHash pool (fst it)))
                               (VCoin (pending_coin (userWithdrawable (snd it)) h (fst it)))]
                       else []) poolUsers)"

definition pool_ops :: "Env \<Rightarrow> uint256 \<Rightarrow> int \<Rightarrow> CAccountID \<times> CUserStatusMap \<Rightarrow> BatchOp list" where
  "pool_ops env epochHash h itPool =
     user_ops env epochHash h (fst itPool) (snd itPool) @
     [OpWrite (StakingPoolUsersEntry epochHash (fst itPool))
        (VUsers (std_sort user_before (list_users (snd itPool))))]"

definition list_pools :: "(CAccountID \<times> COutPoint) list \<Rightarrow> CPoolUserStatusMap \<Rightarrow> StakingPool list" where
  "list_pools enabledPools epochPoolUsers =
     map (\<lambda>it. StakingPool (fst it) (get_or (0, 4294967295) enabledPools (fst it))
                 (sum_list (map (\<lambda>u. userStake (snd u)) (snd it)))) epochPoolUsers"

definition snapshot_ops ::
  "Env \<Rightarrow> uint256 \<Rightarrow> int \<Rightarrow> (CAccountID \<times> COutPoint) list \<Rightarrow> CPoolUserStatusMap \<Rightarrow> BatchOp list" where
  "snapshot_ops env epochHash h enabledPools epochPoolUsers =
     concat (map (pool_ops env epochHash h) epochPoolUsers) @
     [OpWrite (StakingPoolEntry epochHash)
        (VPools (std_sort pool_before (list_pools enabledPools epochPoolUsers)))]"

text \<open>
  The previous epoch in the words of the specification: the reward a pool earned over
  the blocks of the epoch, the pro-rata share of a reward (nothing when there is no reward
  or no stake to divide by), and whether a user's pending amount is carried forward.
\<close>

definition epoch_reward :: "Env \<Rightarrow> CBlockIndex list \<Rightarrow> CAccountID \<Rightarrow> CAmount" where
  "epoch_reward env pEpochInitIndex pool =
     sum_list (map (\<lambda>b. if minerRewardID b = pool then GetBlockStakingPoolSubsidy env (blockHeight b) else 0)
                 (take (nat (nSaturnEpockBlocks (consensus env))) pEpochInitIndex))"

definition reward_share :: "CAmount \<Rightarrow> CAmount \<Rightarrow> CAmount \<Rightarrow> CAmount" where
  "reward_share reward userStakeAmount totalStake =
     (if reward > 0 \<and> totalStake > 0 then CalcStakePoolUserReward reward userStakeAmount totalStake else 0)"

definition carried_forward :: "Env \<Rightarrow> CDBWrapper \<Rightarrow> uint256 \<Rightarrow> CAccountID \<Rightarrow> StakingPoolUser \<Rightarrow> bool" where
  "carried_forward env db prevEpochHash pool preEpochPoolUser =
     (withdrawableAmount preEpochPoolUser < MIN_WITHDRAWABLE_AMOUNT env
      \<or> db_Exists db (CoinEntry (CreateStakePendingCoinOutPoint env prevEpochHash pool
                                   (accountID preEpochPoolUser))))"

subsection \<open>Inputs on which the properties are exercised\<close>

text \<open>
  Epochs of 10 blocks, staking active from height 100; batches flushed once they hold
  more than three operations; pools register with 1000, amounts from 50 can be withdrawn.
\<close>

definition params0 :: Params where
  "params0 = \<lparr>nSaturnActiveHeight = 100, nSaturnEpockBlocks = 10, SaturnStakingGenesisID = 15\<rparr>"

definition block0 :: "uint256 \<Rightarrow> int \<Rightarrow> CAccountID \<Rightarrow> CBlockIndex" where
  "block0 hash h miner = \<lparr>GetBlockHash = hash, blockHeight = h, minerRewardID = miner\<rparr>"

definition env0 :: Env where
  "env0 = \<lparr>consensus = params0, dbbatchsize = 3, SizeEstimate = length,
            LookupBlockIndex = (\<lambda>hash. [block0 hash 7 0]),
            GetInitialStakingPoolAmount = (\<lambda>h. 1000), GetBlockStakingPoolSubsidy = (\<lambda>h. 4),
            MIN_WITHDRAWABLE_AMOUNT = 50, BINDPLOTTER_LOCKAMOUNT = 5,
            CreateStakePendingCoinOutPoint = (\<lambda>epochHash pool user. (epochHash + pool + user, 0))\<rparr>"

definition coin0 :: "CAmount \<Rightarrow> CAccountID \<Rightarrow> Payload \<Rightarrow> bool \<Rightarrow> Coin" where
  "coin0 v owner p s =
     \<lparr>nValue = v, nHeight = 1, fCoinBase = False, outAccountID = owner, payload = p, IsSpent = s\<rparr>"

definition dirty0 :: "Coin \<Rightarrow> CCoinsCacheEntry" where
  "dirty0 c = \<lparr>coin = c, DIRTY = True\<rparr>"

definition db0 :: "(DBKey \<times> DBValue) list \<Rightarrow> CDBWrapper" where
  "db0 s = \<lparr>store = s, written = []\<rparr>"

text \<open>A delta: a new coin with a point payload, and a spent coin.\<close>

definition delta0 :: CCoinsMap where
  "delta0 = [((1, 0), dirty0 (coin0 5 7 (PointPayload 8 5) False)),
             ((2, 0), dirty0 (coin0 6 7 NoPayload True))]"

text \<open>The same parameters with batches flushed once they hold more than one operation.\<close>

definition env1 :: Env where
  "env1 = env0\<lparr>dbbatchsize := 1\<rparr>"

text \<open>A delta whose first entry is not dirty; its second entry spends a coin.\<close>

definition delta_clean_first :: CCoinsMap where
  "delta_clean_first = [((12, 0), \<lparr>coin = coin0 5 7 NoPayload False, DIRTY = False\<rparr>),
                        ((13, 0), dirty0 (coin0 6 7 NoPayload True))]"

definition chain0 :: "CBlockIndex list" where
  "chain0 = replicate 10 (block0 9 120 21) @ [block0 3 110 21]"

definition prev_db0 :: CDBWrapper where
  "prev_db0 = db0 [(StakingPoolEntry 3, VPools [StakingPool 21 (5, 0) 100, StakingPool 22 (6, 0) 300]),
                   (StakingPoolUsersEntry 3 21, VUsers [StakingPoolUser 7 100 0])]"

text \<open>
  Which pools a snapshot at height \<open>h\<close> finds in the store: a staking coin of the
  genesis account that meets the registration amount enables the pool it pays to; a
  staking coin of another account that is still locked at \<open>h\<close> is a deposit in the pool
  it pays to.
\<close>

definition enables :: "Env \<Rightarrow> CDBWrapper \<Rightarrow> COutPoint \<Rightarrow> CAccountID \<Rightarrow> bool" where
  "enables env db outpoint pool =
     (case db_Read db (CoinEntry outpoint) of
        Some (VCoin c) \<Rightarrow>
          (case payload c of
             StakingPayload receiverID amount lockBlocks \<Rightarrow>
               receiverID = pool \<and> outAccountID c = SaturnStakingGenesisID (consensus env)
               \<and> nValue c \<ge> GetInitialStakingPoolAmount env (int (nHeight c))
           | _ \<Rightarrow> False)
      | _ \<Rightarrow> False)"

definition deposits :: "Env \<Rightarrow> CDBWrapper \<Rightarrow> int \<Rightarrow> COutPoint \<Rightarrow> CAccountID \<Rightarrow> bool" where
  "deposits env db h outpoint pool =
     (case db_Read db (CoinEntry outpoint) of
        Some (VCoin c) \<Rightarrow>
          (case payload c of
             StakingPayload receiverID amount lockBlocks \<Rightarrow>
               receiverID = pool \<and> outAccountID c \<noteq> SaturnStakingGenesisID (consensus env)
               \<and> uint32 (int (nHeight c) + int lockBlocks) \<ge> uint32 h
           | _ \<Rightarrow> False)
      | _ \<Rightarrow> False)"

definition enabled_pool :: "Env \<Rightarrow> CDBWrapper \<Rightarrow> CAccountID \<Rightarrow> bool" where
  "enabled_pool env db pool =
     list_ex (\<lambda>r. enables env db (fst r) pool) (scan_prefix db DB_COIN_STAKING_RECEIVE)"

definition has_deposit :: "Env \<Rightarrow> CDBWrapper \<Rightarrow> int \<Rightarrow> CAccountID \<Rightarrow> bool" where
  "has_deposit env db h pool =
     list_ex (\<lambda>r. deposits env db h (fst r) pool) (scan_prefix db DB_COIN_STAKING_RECEIVE)"

definition op_key :: "BatchOp \<Rightarrow> DBKey" where
  "op_key op = (case op of OpWrite k v \<Rightarrow> k | OpErase k \<Rightarrow> k)"

text \<open>
  A store with two registered pools, 21 and 22, and one locked deposit of 300 by
  account 7 in pool 21.
\<close>

definition staking_db0 :: CDBWrapper where
  "staking_db0 = db0
     [(CoinEntry (41, 0), VCoin (coin0 1000 15 (StakingPayload 21 1000 100000) False)),
      (StakingReceiveEntry (41, 0) 21, VAmount 1000),
      (CoinEntry (42, 0), VCoin (coin0 1000 15 (StakingPayload 22 1000 100000) False)),
      (StakingReceiveEntry (42, 0) 22, VAmount 1000),
      (CoinEntry (43, 0), VCoin (coin0 300 7 (StakingPayload 21 300 1000) False)),
      (StakingReceiveEntry (43, 0) 21, VAmount 300)]"

text \<open>
  The account index holds 5 for an outpoint of account 7. Asked with no modified coins,
  the balance is 5; asked with a modified coin that spends the outpoint at a value of 9,
  it would be -4, and the function aborts.
\<close>

definition index_db0 :: CDBWrapper where
  "index_db0 = db0 [(CoinEntry (41, 0), VCoin (coin0 5 7 NoPayload False)),
                    (CoinIndexEntry (41, 0) 7, VAmount 5)]"

text \<open>The two comparisons as keys: stake descending, then id ascending.\<close>

definition user_key :: "StakingPoolUser \<Rightarrow> int \<times> nat" where
  "user_key u = (- stakeAmount u, accountID u)"

definition pool_key :: "StakingPool \<Rightarrow> int \<times> nat" where
  "pool_key p = (- poolStakeAmount p, poolID p)"

text \<open>Two iteration orders of the same maps: the same pools, each with the same users.\<close>

definition same_status_maps :: "CPoolUserStatusMap \<Rightarrow> CPoolUserStatusMap \<Rightarrow> bool" where
  "same_status_maps pu pu' =
     (mset (map (\<lambda>it. (fst it, mset (snd it))) pu) = mset (map (\<lambda>it. (fst it, mset (snd it))) pu'))"

text \<open>
  Pool 21 with the stakes 300 and 700 of two users, pool 22 with a stake of 50, in two
  iteration orders.
\<close>

definition maps0 :: CPoolUserStatusMap where
  "maps0 = [(21, [(7, CUserStatus 300 0), (8, CUserStatus 700 0)]), (22, [(9, CUserStatus 50 0)])]"

definition maps0' :: CPoolUserStatusMap where
  "maps0' = [(22, [(9, CUserStatus 50 0)]), (21, [(8, CUserStatus 700 0), (7, CUserStatus 300 0)])]"

text \<open>
  The index records of a live coin. \<open>index_records\<close> follows the code (lines 472 to
  487): nothing for a coin without an owner. \<open>claimed_index_records\<close> follows the
  claim's words: the account record when the owner is not null, and the records of the
  payload variant in every case.
\<close>

definition index_records :: "COutPoint \<Rightarrow> Coin \<Rightarrow> (DBKey \<times> DBValue) list" where
  "index_records outpoint c =
     (if outAccountID c \<noteq> 0 then
        (CoinIndexEntry outpoint (outAccountID c), VAmount (nValue c)) #
        (case payload c of
           NoPayload \<Rightarrow> []
         | BindPlotterPayload plotterId \<Rightarrow>
             [(BindPlotterEntry outpoint (outAccountID c), VBindPlotter plotterId (nHeight c))]
         | PointPayload receiverID amount \<Rightarrow>
             [(PointSendEntry outpoint (outAccountID c), VAmount (nValue c)),
              (PointReceiveEntry outpoint receiverID, VAmount amount)]
         | StakingPayload receiverID amount lockBlocks \<Rightarrow>
             [(StakingSendEntry outpoint (outAccountID c), VAmount (nValue c)),
              (StakingReceiveEntry outpoint receiverID, VAmount amount)])
      else [])"

definition claimed_index_records :: "COutPoint \<Rightarrow> Coin \<Rightarrow> (DBKey \<times> DBValue) list" where
  "claimed_index_records outpoint c =
     (if outAccountID c \<noteq> 0 then [(CoinIndexEntry outpoint (outAccountID c), VAmount (nValue c))] else []) @
     (case payload c of
        NoPayload \<Rightarrow> []
      | BindPlotterPayload plotterId \<Rightarrow>
          [(BindPlotterEntry outpoint (outAccountID c), VBindPlotter plotterId (nHeight c))]
      | PointPayload receiverID amount \<Rightarrow>
          [(PointSendEntry outpoint (outAccountID c), VAmount (nValue c)),
           (PointReceiveEntry outpoint receiverID, VAmount amount)]
      | StakingPayload receiverID amount lockBlocks \<Rightarrow>
          [(StakingSendEntry outpoint (outAccountID c), VAmount (nValue c)),
           (StakingReceiveEntry outpoint receiverID, VAmount amount)])"

text \<open>
  Index consistency, checked record by record: a coin of the primary store has all its
  index records, and every index record is one of the coin at its outpoint. So a coin
  that is spent or absent has none.
\<close>

definition index_consistent :: "(COutPoint \<Rightarrow> Coin \<Rightarrow> (DBKey \<times> DBValue) list) \<Rightarrow> CDBWrapper \<Rightarrow> bool" where
  "index_consistent records db =
     list_all (\<lambda>kv. case fst kv of
                  CoinEntry outpoint \<Rightarrow>
                    (case snd kv of
                       VCoin c \<Rightarrow> list_all (\<lambda>r. db_Read db (fst r) = Some (snd r)) (records outpoint c)
                     | _ \<Rightarrow> True)
                | AccountEntry prefix outpoint a \<Rightarrow>
                    (case db_Read db (CoinEntry outpoint) of
                       Some (VCoin c) \<Rightarrow> kv \<in> set (records outpoint c)
                     | _ \<Rightarrow> False)
                | _ \<Rightarrow> True) (store db)"

text \<open>The same, on the store as a map.\<close>

definition inv_map :: "(DBKey \<rightharpoonup> DBValue) \<Rightarrow> bool" where
  "inv_map m =
     (\<forall>prefix outpoint a v.
        m (AccountEntry prefix outpoint a) = Some v \<longleftrightarrow>
        (\<exists>c. m (CoinEntry outpoint) = Some (VCoin c)
           \<and> (AccountEntry prefix outpoint a, v) \<in> set (index_records outpoint c)))"

text \<open>
  A dirty entry of the delta carries the owner and the payload of the coin the store
  holds at its outpoint, if it holds one.
\<close>

definition delta_agrees :: "CDBWrapper \<Rightarrow> CCoinsMap \<Rightarrow> bool" where
  "delta_agrees db mapCoins =
     list_all (\<lambda>it. DIRTY (snd it) \<longrightarrow>
                 (case db_Read db (CoinEntry (fst it)) of
                    Some (VCoin c) \<Rightarrow>
                      outAccountID c = outAccountID (coin (snd it)) \<and> payload c = payload (coin (snd it))
                  | _ \<Rightarrow> True)) mapCoins"

definition apply_map :: "BatchOp \<Rightarrow> (DBKey \<rightharpoonup> DBValue) \<Rightarrow> (DBKey \<rightharpoonup> DBValue)" where
  "apply_map op m = (case op of OpWrite k v \<Rightarrow> m(k \<mapsto> v) | OpErase k \<Rightarrow> m(k := None))"

text \<open>A delta that spends the coin of \<open>index_db0\<close> and creates a coin with a point payload.\<close>

definition delta1 :: CCoinsMap where
  "delta1 = [((41, 0), dirty0 (coin0 5 7 NoPayload True)),
             ((11, 0), dirty0 (coin0 5 7 (PointPayload 8 5) False))]"

text \<open>
  A delta with one new coin that has a point payload and no owner, and the store a
  commit of it to the empty store at block 9 leaves.
\<close>

definition unowned_delta :: CCoinsMap where
  "unowned_delta = [((11, 0), dirty0 (coin0 5 0 (PointPayload 8 5) False))]"

definition unowned_db :: CDBWrapper where
  "unowned_db =
     \<lparr>store = [(CoinEntry (11, 0), VCoin (coin0 5 0 (PointPayload 8 5) False)), (DB_BEST_BLOCK, VHash 9)],
      written = [(ByBatchWrite,
                  [OpErase DB_BEST_BLOCK, OpWrite DB_HEAD_BLOCKS (VHashes [9, 0]),
                   OpWrite (CoinEntry (11, 0)) (VCoin (coin0 5 0 (PointPayload 8 5) False)),
                   OpErase DB_HEAD_BLOCKS, OpWrite DB_BEST_BLOCK (VHash 9)])]\<rparr>"

text \<open>
  The amount an index record holds; the records of one prefix and one account in the
  store, weighed by \<open>w\<close> and summed; the same records as a cursor yields them.
\<close>

definition amount_of :: "DBValue \<Rightarrow> CAmount" where
  "amount_of v = (case v of VAmount x \<Rightarrow> x | _ \<Rightarrow> 0)"

definition index_weight :: "(DBValue \<Rightarrow> int) \<Rightarrow> DBPrefix \<Rightarrow> CAccountID \<Rightarrow> DBKey \<Rightarrow> DBValue option \<Rightarrow> int" where
  "index_weight w p a k v =
     (case k of
        AccountEntry q outpoint b \<Rightarrow>
          (if q = p \<and> b = a then (case v of Some x \<Rightarrow> w x | None \<Rightarrow> 0) else 0)
      | _ \<Rightarrow> 0)"

definition index_total :: "(DBValue \<Rightarrow> int) \<Rightarrow> DBPrefix \<Rightarrow> CAccountID \<Rightarrow> (DBKey \<times> DBValue) list \<Rightarrow> int" where
  "index_total w p a s = sum_list (map (\<lambda>kv. index_weight w p a (fst kv) (Some (snd kv))) s)"

definition scan_list :: "DBPrefix \<Rightarrow> CAccountID \<Rightarrow> (DBKey \<times> DBValue) list \<Rightarrow> (COutPoint \<times> DBValue) list" where
  "scan_list p a s =
     concat (map (\<lambda>kv. case fst kv of
                         AccountEntry q outpoint b \<Rightarrow> (if q = p \<and> b = a then [(outpoint, snd kv)] else [])
                       | _ \<Rightarrow> []) s)"

text \<open>
  A dirty entry of the delta carries the owner, the payload and the value of the coin
  the store holds at its outpoint, if it holds one; a dirty entry that is live has an
  owner.
\<close>

definition delta_matches :: "CDBWrapper \<Rightarrow> CCoinsMap \<Rightarrow> bool" where
  "delta_matches db mapCoins =
     list_all (\<lambda>it. DIRTY (snd it) \<longrightarrow>
                 (case db_Read db (CoinEntry (fst it)) of
                    Some (VCoin c) \<Rightarrow>
                      outAccountID c = outAccountID (coin (snd it)) \<and> payload c = payload (coin (snd it))
                      \<and> nValue c = nValue (coin (snd it))
                  | _ \<Rightarrow> True)) mapCoins"

definition delta_owned :: "CCoinsMap \<Rightarrow> bool" where
  "delta_owned mapCoins =
     list_all (\<lambda>it. DIRTY (snd it) \<and> \<not> IsSpent (coin (snd it)) \<longrightarrow> outAccountID (coin (snd it)) \<noteq> 0) mapCoins"

text \<open>
  The step the blocks of GetAccountBalance make for one modified coin, on the store as a
  map: \<open>w\<close> weighs a record found, \<open>who\<close> and \<open>val\<close> give the account and the amount of
  a coin that has no record yet.
\<close>

definition overlay_step ::
  "(DBValue \<Rightarrow> int) \<Rightarrow> (Coin \<Rightarrow> bool) \<Rightarrow> (Coin \<Rightarrow> CAccountID) \<Rightarrow> (Coin \<Rightarrow> int) \<Rightarrow> DBPrefix \<Rightarrow> CAccountID
     \<Rightarrow> (DBKey \<rightharpoonup> DBValue) \<Rightarrow> COutPoint \<times> CCoinsCacheEntry \<Rightarrow> int \<Rightarrow> int" where
  "overlay_step w isKind who val p account m it balance =
     (if \<not> DIRTY (snd it) \<or> \<not> isKind (coin (snd it)) then balance
      else
        (case m (AccountEntry p (fst it) account) of
           Some v \<Rightarrow> (if IsSpent (coin (snd it)) then balance - w v else balance)
         | None \<Rightarrow>
             if who (coin (snd it)) = account \<and> \<not> IsSpent (coin (snd it))
             then balance + val (coin (snd it)) else balance))"

text \<open>
  A store after the previous epoch's snapshot at block 3: the pool list, pool 21 with
  a user owed 60 and pool 22 with a user owed 20, and the withdrawal coin written for the
  60 (the 20 are below the minimum of 50, no coin was written for them).
\<close>

definition prev_pools0 :: "StakingPool list" where
  "prev_pools0 = [StakingPool 21 (5, 0) 100, StakingPool 22 (6, 0) 300]"

definition carry_db0 :: CDBWrapper where
  "carry_db0 = db0 [(StakingPoolEntry 3, VPools prev_pools0),
                    (StakingPoolUsersEntry 3 21, VUsers [StakingPoolUser 7 100 60]),
                    (StakingPoolUsersEntry 3 22, VUsers [StakingPoolUser 9 300 20]),
                    (CoinEntry (31, 0), VCoin (pending_coin 60 110 7))]"

text \<open>The same store once the user has spent the withdrawal coin, and without the pool list.\<close>

definition spent_db0 :: CDBWrapper where
  "spent_db0 = db0 [(StakingPoolEntry 3, VPools prev_pools0),
                    (StakingPoolUsersEntry 3 21, VUsers [StakingPoolUser 7 100 60]),
                    (StakingPoolUsersEntry 3 22, VUsers [StakingPoolUser 9 300 20])]"

definition nolist_db0 :: CDBWrapper where
  "nolist_db0 = db0 [(StakingPoolUsersEntry 3 21, VUsers [StakingPoolUser 7 100 60]),
                     (CoinEntry (31, 0), VCoin (pending_coin 60 110 7))]"

text \<open>
  The blocks GetAccountBalance computes, each with its result before the assertion, in
  the order of the source: the available balance always, the bind plotter balance when
  its pointer is not null, an element of the point and of the staking array when the
  array is not null and the element does not hold \<open>-1\<close> on entry.
\<close>

definition pair_blocks ::
  "CDBWrapper \<Rightarrow> DBPrefix \<Rightarrow> DBPrefix \<Rightarrow> (Coin \<Rightarrow> bool) \<Rightarrow> CAccountID \<Rightarrow> CCoinsMap
     \<Rightarrow> (CAmount \<times> CAmount) option \<Rightarrow> (error + CAmount) list" where
  "pair_blocks db sendPrefix receivePrefix isKind account mapModifiedCoins balance =
     (case balance of
        None \<Rightarrow> []
      | Some (b0, b1) \<Rightarrow>
          (if b0 \<noteq> - 1 then [raw_send db sendPrefix isKind account mapModifiedCoins] else []) @
          (if b1 \<noteq> - 1 then [raw_receive db receivePrefix isKind account mapModifiedCoins] else []))"

definition computed_blocks ::
  "Env \<Rightarrow> CDBWrapper \<Rightarrow> CAccountID \<Rightarrow> bool \<Rightarrow> (CAmount \<times> CAmount) option \<Rightarrow> (CAmount \<times> CAmount) option
     \<Rightarrow> CCoinsMap \<Rightarrow> (error + CAmount) list" where
  "computed_blocks env db account balanceBindPlotter balancePoint balanceStaking mapModifiedCoins =
     [raw_available db account mapModifiedCoins] @
     (if balanceBindPlotter then [raw_bindplotter env db account mapModifiedCoins] else []) @
     pair_blocks db DB_COIN_POINT_SEND DB_COIN_POINT_RECEIVE IsPoint account mapModifiedCoins balancePoint @
     pair_blocks db DB_COIN_STAKING_SEND DB_COIN_STAKING_RECEIVE IsStaking account mapModifiedCoins
       balanceStaking"

text \<open>
  A result that is negative; and the failure of the first block that fails, by a read
  error or by the assertion on a negative result.
\<close>

definition negative_result :: "error + CAmount \<Rightarrow> bool" where
  "negative_result r = (case r of Inl e \<Rightarrow> False | Inr v \<Rightarrow> v < 0)"

fun first_failure :: "(error + CAmount) list \<Rightarrow> error option" where
  "first_failure [] = None"
| "first_failure (r # rs) =
     (case r of Inl e \<Rightarrow> Some e | Inr v \<Rightarrow> if v < 0 then Some AssertionFailed else first_failure rs)"

text \<open>
  An element of an in-out array after the call: one that holds \<open>-1\<close> on entry is skipped
  and stays; another one holds the result of its block, which is not negative.
\<close>

definition element_ok :: "CAmount \<Rightarrow> error + CAmount \<Rightarrow> CAmount \<Rightarrow> bool" where
  "element_ok entry raw out = (if entry = - 1 then out = - 1 else raw = Inr out \<and> 0 \<le> out)"

text \<open>Two amounts of the point-receive index of account 7 that add up to \<open>2 ^ 63\<close>.\<close>

definition overflow_db0 :: CDBWrapper where
  "overflow_db0 = db0 [(PointReceiveEntry (41, 0) 7, VAmount (2 ^ 62)),
                       (PointReceiveEntry (42, 0) 7, VAmount (2 ^ 62))]"

text \<open>
  A commit at an epoch boundary: block 9 at height 120 on top of the ten blocks of the
  epoch that started with block 3 at height 110, all mined for pool 21. The store is
  consistent: pool 21 is enabled by the genesis account's coin \<open>(41, 0)\<close>, account 7 has
  the deposit \<open>(43, 0)\<close> of 300 in it, each coin with its index records; the previous
  snapshot owes account 7 an amount of 40. \<open>epoch_db1\<close> is the store after the commit of
  an empty delta.
\<close>

definition chain_epoch :: "CBlockIndex list" where
  "chain_epoch = [block0 9 120 21, block0 319 119 21, block0 318 118 21, block0 317 117 21,
                  block0 316 116 21, block0 315 115 21, block0 314 114 21, block0 313 113 21,
                  block0 312 112 21, block0 311 111 21, block0 3 110 21]"

definition env_epoch :: Env where
  "env_epoch = env0\<lparr>LookupBlockIndex := (\<lambda>hash. chain_epoch)\<rparr>"

definition epoch_store0 :: "(DBKey \<times> DBValue) list" where
  "epoch_store0 =
     [(CoinEntry (41, 0), VCoin (coin0 1000 15 (StakingPayload 21 1000 100000) False)),
      (CoinIndexEntry (41, 0) 15, VAmount 1000),
      (StakingSendEntry (41, 0) 15, VAmount 1000),
      (StakingReceiveEntry (41, 0) 21, VAmount 1000),
      (CoinEntry (43, 0), VCoin (coin0 300 7 (StakingPayload 21 300 1000) False)),
      (CoinIndexEntry (43, 0) 7, VAmount 300),
      (StakingSendEntry (43, 0) 7, VAmount 300),
      (StakingReceiveEntry (43, 0) 21, VAmount 300),
      (StakingPoolEntry 3, VPools [StakingPool 21 (41, 0) 300]),
      (StakingPoolUsersEntry 3 21, VUsers [StakingPoolUser 7 300 40])]"

definition epoch_db0 :: CDBWrapper where
  "epoch_db0 = db0 epoch_store0"

definition epoch_db1 :: CDBWrapper where
  "epoch_db1 =
     \<lparr>store = epoch_store0 @
                [(CoinEntry (37, 0), VCoin (pending_coin 80 120 7)),
                 (StakingPoolUsersEntry 9 21, VUsers [StakingPoolUser 7 300 80]),
                 (StakingPoolEntry 9, VPools [StakingPool 21 (41, 0) 300]),
                 (DB_BEST_BLOCK, VHash 9)],
      written = [(BySnapshot,
                  [OpWrite (CoinEntry (37, 0)) (VCoin (pending_coin 80 120 7)),
                   OpWrite (StakingPoolUsersEntry 9 21) (VUsers [StakingPoolUser 7 300 80]),
                   OpWrite (StakingPoolEntry 9) (VPools [StakingPool 21 (41, 0) 300])]),
                 (ByBatchWrite, marker_ops 9 0 @ final_ops 9)]\<rparr>"

text \<open>
  A delta whose entry for the coin of \<open>index_db0\<close> is spent and names account 8 as the
  owner, where the stored coin has account 7; and the store after its commit.
\<close>

definition mismatch_delta :: CCoinsMap where
  "mismatch_delta = [((41, 0), dirty0 (coin0 5 8 NoPayload True))]"

definition mismatch_db1 :: CDBWrapper where
  "mismatch_db1 =
     \<lparr>store = [(CoinIndexEntry (41, 0) 7, VAmount 5), (DB_BEST_BLOCK, VHash 9)],
      written = [(ByBatchWrite,
                  [OpErase DB_BEST_BLOCK, OpWrite DB_HEAD_BLOCKS (VHashes [9, 0]),
                   OpErase (CoinEntry (41, 0)), OpErase (CoinIndexEntry (41, 0) 8)]),
                 (ByBatchWrite, final_ops 9)]\<rparr>"

section \<open>Properties\<close>

lemma map_of_put: "map_of (put k v s) = (map_of s)(k \<mapsto> v)"
  by (induction s) (auto simp: fun_eq_iff)

lemma smod_zero_iff: "e \<noteq> 0 \<Longrightarrow> (h smod e = 0) = ((h::int) mod e = 0)"
  by (auto simp: smod_int_alt_def mod_eq_0_iff_dvd sgn_if)

lemma written_WriteBatch [simp]: "written (WriteBatch w b db) = written db @ [(w, b)]"
  by (simp add: WriteBatch_def)

lemma store_WriteBatch [simp]: "store (WriteBatch w b db) = fold apply_op b (store db)"
  by (simp add: WriteBatch_def)

lemma delta_ops_Cons:
  "delta_ops (it # rest) = (if DIRTY (snd it) then coin_ops (fst it) (coin (snd it)) else []) @ delta_ops rest"
  by (simp add: delta_ops_def)

lemma BatchWrite_loop_chunks:
  "BatchWrite_loop env m batch db = (batch', db') \<Longrightarrow>
     \<exists>chunks. written db' = written db @ map (Pair ByBatchWrite) chunks
        \<and> concat chunks @ batch' = batch @ delta_ops m
        \<and> take (length batch) (hd (chunks @ [batch'])) = batch
        \<and> store db' = fold apply_op (concat chunks) (store db)"
proof (induction m arbitrary: batch db)
  case Nil
  then show ?case by (auto simp: delta_ops_def intro: exI [of _ "[]"])
next
  case (Cons it rest)
  define b where "b = (if DIRTY (snd it) then batch @ coin_ops (fst it) (coin (snd it)) else batch)"
  have b_eq: "b = batch @ (if DIRTY (snd it) then coin_ops (fst it) (coin (snd it)) else [])"
    by (simp add: b_def)
  show ?case
  proof (cases "SizeEstimate env b > dbbatchsize env")
    case True
    with Cons.prems have "BatchWrite_loop env rest [] (WriteBatch ByBatchWrite b db) = (batch', db')"
      by (simp add: b_def Let_def)
    from Cons.IH [OF this] obtain chunks where
      c: "written db' = written (WriteBatch ByBatchWrite b db) @ map (Pair ByBatchWrite) chunks"
         "concat chunks @ batch' = [] @ delta_ops rest"
         "store db' = fold apply_op (concat chunks) (store (WriteBatch ByBatchWrite b db))"
      by blast
    show ?thesis
      by (rule exI [of _ "b # chunks"]) (use c in \<open>simp add: b_eq delta_ops_Cons\<close>)
  next
    case False
    with Cons.prems have "BatchWrite_loop env rest b db = (batch', db')"
      by (simp add: b_def Let_def)
    from Cons.IH [OF this] obtain chunks where
      c: "written db' = written db @ map (Pair ByBatchWrite) chunks"
         "concat chunks @ batch' = b @ delta_ops rest"
         "take (length b) (hd (chunks @ [batch'])) = b"
         "store db' = fold apply_op (concat chunks) (store db)"
      by blast
    have "take (length batch) (hd (chunks @ [batch'])) = batch"
    proof -
      have "take (length batch) (take (length b) (hd (chunks @ [batch']))) = take (length batch) b"
        using c(3) by simp
      then show ?thesis by (simp add: b_eq min_def)
    qed
    with c show ?thesis
      by (intro exI [of _ chunks]) (simp add: b_eq delta_ops_Cons)
  qed
qed


lemma flush_if_large_eff:
  "flush_if_large env batch db = (b', db') \<Longrightarrow>
     fold apply_op b' (store db') = fold apply_op batch (store db)
     \<and> (\<exists>chunks. written db' = written db @ map (Pair BySnapshot) chunks)"
  by (auto simp: flush_if_large_def split: if_splits intro: exI [of _ "[]"] exI [of _ "[batch]"])

lemma write_users_eff:
  "write_users env eh h pool us users tot batch db = (users', tot', batch', db') \<Longrightarrow>
     users' = users @ list_users us
     \<and> tot' = tot + sum_list (map (\<lambda>u. userStake (snd u)) us)
     \<and> fold apply_op batch' (store db') = fold apply_op (batch @ user_ops env eh h pool us) (store db)
     \<and> (\<exists>chunks. written db' = written db @ map (Pair BySnapshot) chunks)"
proof (induction us arbitrary: users tot batch db)
  case Nil
  then show ?case by (auto simp: list_users_def user_ops_def intro: exI [of _ "[]"])
next
  case (Cons it rest)
  let ?op = "OpWrite (CoinEntry (CreateStakePendingCoinOutPoint env eh pool (fst it)))
               (VCoin (pending_coin (userWithdrawable (snd it)) h (fst it)))"
  obtain b1 db1 where f: "(if userWithdrawable (snd it) \<ge> MIN_WITHDRAWABLE_AMOUNT env
      then flush_if_large env (batch @ [?op]) db else (batch, db)) = (b1, db1)"
    by (metis surj_pair)
  have step: "fold apply_op b1 (store db1)
        = fold apply_op (batch @ user_ops env eh h pool [it]) (store db)
      \<and> (\<exists>chunks. written db1 = written db @ map (Pair BySnapshot) chunks)"
  proof (cases "userWithdrawable (snd it) \<ge> MIN_WITHDRAWABLE_AMOUNT env")
    case True
    with f have "flush_if_large env (batch @ [?op]) db = (b1, db1)" by simp
    from flush_if_large_eff [OF this] True show ?thesis by (simp add: user_ops_def)
  next
    case False
    with f show ?thesis by (auto simp: user_ops_def intro: exI [of _ "[]"])
  qed
  from Cons.prems f have
    "write_users env eh h pool rest
       (users @ [StakingPoolUser (fst it) (userStake (snd it)) (userWithdrawable (snd it))])
       (tot + userStake (snd it)) b1 db1 = (users', tot', batch', db')"
    by (simp add: Let_def)
  from Cons.IH [OF this] obtain chunks2 where
    r: "users' = (users @ [StakingPoolUser (fst it) (userStake (snd it)) (userWithdrawable (snd it))]) @ list_users rest"
       "tot' = tot + userStake (snd it) + sum_list (map (\<lambda>u. userStake (snd u)) rest)"
       "fold apply_op batch' (store db') = fold apply_op (b1 @ user_ops env eh h pool rest) (store db1)"
       "written db' = written db1 @ map (Pair BySnapshot) chunks2"
    by blast
  from step obtain chunks1 where w1: "written db1 = written db @ map (Pair BySnapshot) chunks1"
    by blast
  have uo: "user_ops env eh h pool (it # rest) = user_ops env eh h pool [it] @ user_ops env eh h pool rest"
    by (simp add: user_ops_def)
  have "written db' = written db @ map (Pair BySnapshot) (chunks1 @ chunks2)"
    using r(4) w1 by simp
  then have "\<exists>chunks. written db' = written db @ map (Pair BySnapshot) chunks" by blast
  moreover have "fold apply_op batch' (store db') = fold apply_op (batch @ user_ops env eh h pool (it # rest)) (store db)"
    using r(3) step by (simp add: uo)
  ultimately show ?case using r(1,2) by (simp add: list_users_def)
qed

lemma write_pools_eff:
  "write_pools env eh h en pu pools batch db = (pools', batch', db') \<Longrightarrow>
     pools' = pools @ list_pools en pu
     \<and> fold apply_op batch' (store db')
         = fold apply_op (batch @ concat (map (pool_ops env eh h) pu)) (store db)
     \<and> (\<exists>chunks. written db' = written db @ map (Pair BySnapshot) chunks)"
proof (induction pu arbitrary: pools batch db)
  case Nil
  then show ?case by (auto simp: list_pools_def intro: exI [of _ "[]"])
next
  case (Cons itPool rest)
  obtain users tot b1 db1 where
    wu: "write_users env eh h (fst itPool) (snd itPool) [] 0 batch db = (users, tot, b1, db1)"
    by (metis surj_pair)
  let ?op = "OpWrite (StakingPoolUsersEntry eh (fst itPool)) (VUsers (std_sort user_before users))"
  obtain b2 db2 where fl: "flush_if_large env (b1 @ [?op]) db1 = (b2, db2)"
    by (metis surj_pair)
  from write_users_eff [OF wu] obtain chunks1 where
    u: "users = list_users (snd itPool)"
       "tot = sum_list (map (\<lambda>u. userStake (snd u)) (snd itPool))"
       "fold apply_op b1 (store db1) = fold apply_op (batch @ user_ops env eh h (fst itPool) (snd itPool)) (store db)"
       "written db1 = written db @ map (Pair BySnapshot) chunks1"
    by auto
  from flush_if_large_eff [OF fl] obtain chunks2 where
    f: "fold apply_op b2 (store db2) = fold apply_op (b1 @ [?op]) (store db1)"
       "written db2 = written db1 @ map (Pair BySnapshot) chunks2"
    by blast
  from Cons.prems wu fl have
    "write_pools env eh h en rest
       (pools @ [StakingPool (fst itPool) (get_or (0, 4294967295) en (fst itPool)) tot]) b2 db2
       = (pools', batch', db')"
    by simp
  from Cons.IH [OF this] obtain chunks3 where
    r: "pools' = (pools @ [StakingPool (fst itPool) (get_or (0, 4294967295) en (fst itPool)) tot]) @ list_pools en rest"
       "fold apply_op batch' (store db') = fold apply_op (b2 @ concat (map (pool_ops env eh h) rest)) (store db2)"
       "written db' = written db2 @ map (Pair BySnapshot) chunks3"
    by blast
  have "written db' = written db @ map (Pair BySnapshot) (chunks1 @ chunks2 @ chunks3)"
    using r(3) f(2) u(4) by simp
  then have "\<exists>chunks. written db' = written db @ map (Pair BySnapshot) chunks" by blast
  moreover have "fold apply_op batch' (store db')
      = fold apply_op (batch @ concat (map (pool_ops env eh h) (itPool # rest))) (store db)"
    using r(2) f(1) u(1,3) by (simp add: pool_ops_def)
  moreover have "pools' = pools @ list_pools en (itPool # rest)"
    using r(1) u(2) by (simp add: list_pools_def)
  ultimately show ?case by blast
qed

lemma write_snapshot_eff:
  "store (write_snapshot env eh h en pu db) = fold apply_op (snapshot_ops env eh h en pu) (store db)
   \<and> (\<exists>chunks. written (write_snapshot env eh h en pu db) = written db @ map (Pair BySnapshot) chunks
         \<and> chunks \<noteq> [])"
proof -
  obtain pools batch db1 where wp: "write_pools env eh h en pu [] [] db = (pools, batch, db1)"
    by (metis surj_pair)
  from write_pools_eff [OF wp] obtain chunks where
    p: "pools = list_pools en pu"
       "fold apply_op batch (store db1) = fold apply_op (concat (map (pool_ops env eh h) pu)) (store db)"
       "written db1 = written db @ map (Pair BySnapshot) chunks"
    by auto
  let ?last = "batch @ [OpWrite (StakingPoolEntry eh) (VPools (std_sort pool_before pools))]"
  have ws: "write_snapshot env eh h en pu db = WriteBatch BySnapshot ?last db1"
    by (simp add: write_snapshot_def wp)
  have "written (write_snapshot env eh h en pu db) = written db @ map (Pair BySnapshot) (chunks @ [?last])"
    by (simp add: ws p(3))
  then have "\<exists>chunks. written (write_snapshot env eh h en pu db) = written db @ map (Pair BySnapshot) chunks
         \<and> chunks \<noteq> []"
    by blast
  moreover have "store (write_snapshot env eh h en pu db) = fold apply_op (snapshot_ops env eh h en pu) (store db)"
    using p(1,2) by (simp add: ws snapshot_ops_def)
  ultimately show ?thesis by blast
qed

lemma load_staking_succeeds:
  "list_all (\<lambda>outpoint. case db_Read db (CoinEntry outpoint) of
                Some (VCoin c) \<Rightarrow> IsStaking c | _ \<Rightarrow> False) outs
   \<Longrightarrow> \<exists>r. load_staking env db h outs pu en = Inr r"
proof (induction outs arbitrary: pu en)
  case Nil
  then show ?case by simp
next
  case (Cons outpoint rest)
  then show ?case
    by (auto simp: IsStaking_def split: option.splits DBValue.splits Payload.splits)
qed

lemma sum_rewards_succeeds:
  "n \<le> length chain \<Longrightarrow> \<exists>st'. sum_rewards env n chain st = Inr (st', drop n chain)"
proof (induction n arbitrary: chain st)
  case 0
  then show ?case by simp
next
  case (Suc n)
  then obtain b prev where "chain = b # prev" by (cases chain) auto
  with Suc show ?case by simp
qed

lemma load_prev_epoch_succeeds:
  assumes "nat (nSaturnEpockBlocks (consensus env)) < length chain"
  shows "\<exists>r. load_prev_epoch env db chain pu = Inr r"
proof -
  let ?n = "nat (nSaturnEpockBlocks (consensus env))"
  from assms have "?n \<le> length chain" by simp
  from sum_rewards_succeeds [OF this] obtain st' where
    s: "sum_rewards env ?n chain [] = Inr (st', drop ?n chain)" by blast
  from assms obtain x xs where d: "drop ?n chain = x # xs"
    by (cases "drop ?n chain") auto
  show ?thesis
    unfolding load_prev_epoch_def
    by (simp add: s d Let_def split: option.splits DBValue.splits)
qed

lemma smod_zero_iff2: "e \<noteq> 0 \<Longrightarrow> (h smod e = 0) = ((h::int) mod e = 0)"
  by (auto simp: smod_int_alt_def mod_eq_0_iff_dvd sgn_if)

lemma TrySnapshot_not_due:
  assumes "0 < nSaturnEpockBlocks (consensus env)"
    and "\<not> epoch_boundary (consensus env) (blockHeight b)"
  shows "TrySnapshotStakingPoolStatus env (b # prev) db = Inr db"
  using assms by (auto simp: TrySnapshotStakingPoolStatus_def epoch_boundary_def smod_zero_iff2)

lemma TrySnapshot_due:
  assumes "0 < nSaturnEpockBlocks (consensus env)"
    and "epoch_boundary (consensus env) (blockHeight b)"
  shows "TrySnapshotStakingPoolStatus env (b # prev) db =
     (case load_staking env db (blockHeight b) (map fst (scan_prefix db DB_COIN_STAKING_RECEIVE)) [] [] of
        Inl e \<Rightarrow> Inl e
      | Inr (allPoolUsers, enabledPools) \<Rightarrow>
          (case load_prev_epoch env db (b # prev) (filter_pools enabledPools allPoolUsers) of
             Inl e \<Rightarrow> Inl e
           | Inr epochPoolUsers \<Rightarrow>
               Inr (write_snapshot env (GetBlockHash b) (blockHeight b) enabledPools epochPoolUsers db)))"
  using assms by (auto simp: TrySnapshotStakingPoolStatus_def epoch_boundary_def smod_zero_iff2)

lemma TrySnapshot_due_succeeds:
  assumes "0 < nSaturnEpockBlocks (consensus env)"
    and "epoch_boundary (consensus env) (blockHeight b)"
    and "staking_index_sound db"
    and "nat (nSaturnEpockBlocks (consensus env)) \<le> length prev"
  shows "\<exists>enabledPools epochPoolUsers.
           TrySnapshotStakingPoolStatus env (b # prev) db
             = Inr (write_snapshot env (GetBlockHash b) (blockHeight b) enabledPools epochPoolUsers db)"
proof -
  have "list_all (\<lambda>outpoint. case db_Read db (CoinEntry outpoint) of
                Some (VCoin c) \<Rightarrow> IsStaking c | _ \<Rightarrow> False)
          (map fst (scan_prefix db DB_COIN_STAKING_RECEIVE))"
    using assms(3) by (simp add: staking_index_sound_def list_all_iff)
  from load_staking_succeeds [OF this] obtain allPoolUsers enabledPools where
    l: "load_staking env db (blockHeight b) (map fst (scan_prefix db DB_COIN_STAKING_RECEIVE)) [] []
          = Inr (allPoolUsers, enabledPools)"
    by (metis surj_pair)
  from assms(4) have "nat (nSaturnEpockBlocks (consensus env)) < length (b # prev)" by simp
  from load_prev_epoch_succeeds [OF this] obtain epochPoolUsers where
    p: "load_prev_epoch env db (b # prev) (filter_pools enabledPools allPoolUsers) = Inr epochPoolUsers"
    by blast
  show ?thesis
    by (intro exI [of _ enabledPools] exI [of _ epochPoolUsers])
       (simp add: TrySnapshot_due [OF assms(1,2)] l p)
qed

lemma db_Read_write_snapshot_pools:
  "db_Read (write_snapshot env eh h en pu db) (StakingPoolEntry eh)
     = Some (VPools (std_sort pool_before (list_pools en pu)))"
  using write_snapshot_eff [of env eh h en pu db]
  by (simp add: db_Read_def snapshot_ops_def map_of_put)

text \<open>
  C7. The snapshot runs exactly at the heights that are at least two epoch lengths past
  the activation height and a multiple of the epoch length: at every other height the
  function returns the store as it is, with no batch written; at such a height, over a
  store whose staking-receive index is sound and a block index that reaches back one
  epoch, it writes a batch and the new epoch's pool list is in the store.
\<close>

theorem TrySnapshot_runs_at_epoch_boundary:
  assumes "0 < nSaturnEpockBlocks (consensus env)"
  shows "(\<not> epoch_boundary (consensus env) (blockHeight b)
            \<longrightarrow> TrySnapshotStakingPoolStatus env (b # prev) db = Inr db)
       \<and> (epoch_boundary (consensus env) (blockHeight b) \<and> staking_index_sound db
            \<and> nat (nSaturnEpockBlocks (consensus env)) \<le> length prev
            \<longrightarrow> (\<exists>db' pools. TrySnapshotStakingPoolStatus env (b # prev) db = Inr db'
                    \<and> db_Read db' (StakingPoolEntry (GetBlockHash b)) = Some (VPools pools)
                    \<and> written db' \<noteq> written db))"
proof (intro conjI impI)
  assume "\<not> epoch_boundary (consensus env) (blockHeight b)"
  with assms show "TrySnapshotStakingPoolStatus env (b # prev) db = Inr db"
    by (rule TrySnapshot_not_due)
next
  assume a: "epoch_boundary (consensus env) (blockHeight b) \<and> staking_index_sound db
            \<and> nat (nSaturnEpockBlocks (consensus env)) \<le> length prev"
  with TrySnapshot_due_succeeds [OF assms, of b db prev] obtain en pu where
    t: "TrySnapshotStakingPoolStatus env (b # prev) db
          = Inr (write_snapshot env (GetBlockHash b) (blockHeight b) en pu db)"
    by blast
  from write_snapshot_eff [of env "GetBlockHash b" "blockHeight b" en pu db]
  have "written (write_snapshot env (GetBlockHash b) (blockHeight b) en pu db) \<noteq> written db"
    by auto
  with t show "\<exists>db' pools. TrySnapshotStakingPoolStatus env (b # prev) db = Inr db'
                    \<and> db_Read db' (StakingPoolEntry (GetBlockHash b)) = Some (VPools pools)
                    \<and> written db' \<noteq> written db"
    by (auto simp: db_Read_write_snapshot_pools)
qed

theorem TrySnapshot_runs_at_epoch_boundary_witness:
  "0 < nSaturnEpockBlocks (consensus env0)
   \<and> \<not> epoch_boundary (consensus env0) (blockHeight (block0 8 115 0))
   \<and> TrySnapshotStakingPoolStatus env0 (block0 8 115 0 # []) (db0 []) = Inr (db0 [])
   \<and> epoch_boundary (consensus env0) (blockHeight (block0 9 120 0))
   \<and> staking_index_sound (db0 [])
   \<and> nat (nSaturnEpockBlocks (consensus env0)) \<le> length (replicate 10 (block0 1 0 0))
   \<and> (\<exists>db' pools. TrySnapshotStakingPoolStatus env0 (block0 9 120 0 # replicate 10 (block0 1 0 0)) (db0 []) = Inr db'
          \<and> db_Read db' (StakingPoolEntry (GetBlockHash (block0 9 120 0))) = Some (VPools pools)
          \<and> written db' \<noteq> written (db0 []))"
proof -
  have e: "0 < nSaturnEpockBlocks (consensus env0)"
    by (simp add: env0_def params0_def)
  have n: "\<not> epoch_boundary (consensus env0) (blockHeight (block0 8 115 0))"
    by (simp add: env0_def params0_def block0_def epoch_boundary_def)
  have y: "epoch_boundary (consensus env0) (blockHeight (block0 9 120 0))"
    by (simp add: env0_def params0_def block0_def epoch_boundary_def)
  have s: "staking_index_sound (db0 [])"
    by (simp add: staking_index_sound_def scan_prefix_def db0_def)
  have l: "nat (nSaturnEpockBlocks (consensus env0)) \<le> length (replicate 10 (block0 1 0 0))"
    by (simp add: env0_def params0_def)
  from TrySnapshot_runs_at_epoch_boundary [OF e, of "block0 8 115 0" "[]" "db0 []"] n
  have 1: "TrySnapshotStakingPoolStatus env0 (block0 8 115 0 # []) (db0 []) = Inr (db0 [])"
    by blast
  from TrySnapshot_runs_at_epoch_boundary [OF e, of "block0 9 120 0" "replicate 10 (block0 1 0 0)" "db0 []"] y s l
  have 2: "\<exists>db' pools. TrySnapshotStakingPoolStatus env0 (block0 9 120 0 # replicate 10 (block0 1 0 0)) (db0 []) = Inr db'
          \<and> db_Read db' (StakingPoolEntry (GetBlockHash (block0 9 120 0))) = Some (VPools pools)
          \<and> written db' \<noteq> written (db0 [])"
    by blast
  from e n 1 y s l 2 show ?thesis by blast
qed

lemma BatchWrite_unfold:
  "hashBlock \<noteq> 0 \<Longrightarrow> old_tip_of db hashBlock = Inr old_tip
     \<Longrightarrow> BatchWrite env mapCoins hashBlock db = BatchWrite_from_tip env mapCoins hashBlock old_tip db"
  by (simp add: BatchWrite_def)

lemma BatchWrite_from_tip_unfold:
  "BatchWrite_loop env mapCoins (marker_ops hashBlock old_tip) db = (batch, db1) \<Longrightarrow>
   BatchWrite_from_tip env mapCoins hashBlock old_tip db =
     (case TrySnapshotStakingPoolStatus env (LookupBlockIndex env hashBlock) db1 of
        Inl e \<Rightarrow> Inl e
      | Inr db2 \<Rightarrow> Inr (WriteBatch ByBatchWrite (batch @ final_ops hashBlock) db2))"
  by (simp add: BatchWrite_from_tip_def)

text \<open>
  C3, as amended. The erase of the best-tip record and the write of the marker
  \<open>[hashBlock, old_tip]\<close> come before every operation of the delta: the batches
  BatchWrite hands to the store, the ones its loop flushes and then the final one, read
  one after the other, are the two marker operations, then the operations of the delta,
  then the final two; and the first of these batches starts with the marker. So no
  operation of the delta is written before the marker. Nothing is said about which batch
  holds the first operation of the delta: it is the first one or a later one.
\<close>

theorem BatchWrite_marker_first:
  assumes "hashBlock \<noteq> 0"
    and "old_tip_of db hashBlock = Inr old_tip"
    and "BatchWrite_loop env mapCoins (marker_ops hashBlock old_tip) db = (batch, db1)"
  shows "\<exists>chunks. written db1 = written db @ map (Pair ByBatchWrite) chunks
          \<and> concat (chunks @ [batch @ final_ops hashBlock])
              = marker_ops hashBlock old_tip @ delta_ops mapCoins @ final_ops hashBlock
          \<and> take 2 (hd (chunks @ [batch @ final_ops hashBlock])) = marker_ops hashBlock old_tip
          \<and> BatchWrite env mapCoins hashBlock db =
              (case TrySnapshotStakingPoolStatus env (LookupBlockIndex env hashBlock) db1 of
                 Inl e \<Rightarrow> Inl e
               | Inr db2 \<Rightarrow> Inr (WriteBatch ByBatchWrite (batch @ final_ops hashBlock) db2))"
proof -
  from BatchWrite_loop_chunks [OF assms(3)] obtain chunks where
    c: "written db1 = written db @ map (Pair ByBatchWrite) chunks"
       "concat chunks @ batch = marker_ops hashBlock old_tip @ delta_ops mapCoins"
       "take (length (marker_ops hashBlock old_tip)) (hd (chunks @ [batch])) = marker_ops hashBlock old_tip"
    by blast
  have len: "length (marker_ops hashBlock old_tip) = 2"
    by (simp add: marker_ops_def)
  have hd_eq: "take 2 (hd (chunks @ [batch @ final_ops hashBlock])) = marker_ops hashBlock old_tip"
  proof (cases chunks)
    case Nil
    with c(2) have b: "batch = marker_ops hashBlock old_tip @ delta_ops mapCoins" by simp
    show ?thesis using Nil by (simp add: b len)
  next
    case (Cons x xs)
    with c(3) show ?thesis by (simp add: len)
  qed
  have "BatchWrite env mapCoins hashBlock db =
              (case TrySnapshotStakingPoolStatus env (LookupBlockIndex env hashBlock) db1 of
                 Inl e \<Rightarrow> Inl e
               | Inr db2 \<Rightarrow> Inr (WriteBatch ByBatchWrite (batch @ final_ops hashBlock) db2))"
    using BatchWrite_unfold [OF assms(1,2)] BatchWrite_from_tip_unfold [OF assms(3)] by simp
  with c(1,2) hd_eq show ?thesis
    by (intro exI [of _ chunks]) simp
qed

theorem BatchWrite_marker_first_witness:
  "(9::nat) \<noteq> 0
   \<and> old_tip_of (db0 [(DB_BEST_BLOCK, VHash 4)]) 9 = Inr 4
   \<and> BatchWrite_loop env0 delta0 (marker_ops 9 4) (db0 [(DB_BEST_BLOCK, VHash 4)])
       = ([OpErase (CoinEntry (2, 0)), OpErase (CoinIndexEntry (2, 0) 7)],
          WriteBatch ByBatchWrite (marker_ops 9 4 @ coin_ops (1, 0) (coin0 5 7 (PointPayload 8 5) False))
            (db0 [(DB_BEST_BLOCK, VHash 4)]))
   \<and> (\<exists>chunks.
         written (WriteBatch ByBatchWrite (marker_ops 9 4 @ coin_ops (1, 0) (coin0 5 7 (PointPayload 8 5) False))
            (db0 [(DB_BEST_BLOCK, VHash 4)]))
           = written (db0 [(DB_BEST_BLOCK, VHash 4)]) @ map (Pair ByBatchWrite) chunks
          \<and> concat (chunks @ [[OpErase (CoinEntry (2, 0)), OpErase (CoinIndexEntry (2, 0) 7)] @ final_ops 9])
              = marker_ops 9 4 @ delta_ops delta0 @ final_ops 9
          \<and> take 2 (hd (chunks @ [[OpErase (CoinEntry (2, 0)), OpErase (CoinIndexEntry (2, 0) 7)] @ final_ops 9]))
              = marker_ops 9 4)"
proof -
  have 1: "(9::nat) \<noteq> 0" by simp
  have 2: "old_tip_of (db0 [(DB_BEST_BLOCK, VHash 4)]) 9 = Inr 4"
    by (simp add: old_tip_of_def GetBestBlock_def db_Read_def db0_def)
  have 3: "BatchWrite_loop env0 delta0 (marker_ops 9 4) (db0 [(DB_BEST_BLOCK, VHash 4)])
       = ([OpErase (CoinEntry (2, 0)), OpErase (CoinIndexEntry (2, 0) 7)],
          WriteBatch ByBatchWrite (marker_ops 9 4 @ coin_ops (1, 0) (coin0 5 7 (PointPayload 8 5) False))
            (db0 [(DB_BEST_BLOCK, VHash 4)]))"
    by (simp add: delta0_def dirty0_def coin0_def env0_def marker_ops_def coin_ops_def
          IsBindPlotter_def IsPoint_def IsStaking_def)
  from BatchWrite_marker_first [OF 1 2 3] 1 2 3 show ?thesis by blast
qed

text \<open>
  C3, as stated, fails. The size of the batch is checked after every entry of the delta,
  dirty or not (lines 495 to 498). With a batch size of one operation and a delta whose
  first entry is not dirty, the marker is flushed in a batch of its own; the first
  operation of the delta is written in the second batch, not in the marker's.
\<close>

theorem marker_flushed_before_first_coin:
  "BatchWrite env1 delta_clean_first 9 (db0 [])
     = Inr \<lparr>store = [(DB_BEST_BLOCK, VHash 9)],
            written = [(ByBatchWrite, marker_ops 9 0),
                       (ByBatchWrite, [OpErase (CoinEntry (13, 0)), OpErase (CoinIndexEntry (13, 0) 7)]),
                       (ByBatchWrite, final_ops 9)]\<rparr>
   \<and> delta_ops delta_clean_first = [OpErase (CoinEntry (13, 0)), OpErase (CoinIndexEntry (13, 0) 7)]
   \<and> marker_ops 9 0 = [OpErase DB_BEST_BLOCK, OpWrite DB_HEAD_BLOCKS (VHashes [9, 0])]
   \<and> OpErase (CoinEntry (13, 0)) \<notin> set (marker_ops 9 0)"
proof -
  have t: "old_tip_of (db0 []) 9 = Inr 0"
    by (simp add: old_tip_of_def GetBestBlock_def GetHeadBlocks_def db_Read_def db0_def)
  have l: "BatchWrite_loop env1 delta_clean_first (marker_ops 9 0) (db0 [])
      = ([], WriteBatch ByBatchWrite [OpErase (CoinEntry (13, 0)), OpErase (CoinIndexEntry (13, 0) 7)]
               (WriteBatch ByBatchWrite (marker_ops 9 0) (db0 [])))"
    by (simp add: delta_clean_first_def marker_ops_def coin_ops_def dirty0_def coin0_def env1_def env0_def
          IsBindPlotter_def IsPoint_def IsStaking_def)
  have s: "TrySnapshotStakingPoolStatus env1
             (LookupBlockIndex env1 9) db = Inr db" for db
    by (simp add: TrySnapshotStakingPoolStatus_def env1_def env0_def params0_def block0_def)
  have b: "BatchWrite env1 delta_clean_first 9 (db0 [])
      = Inr (WriteBatch ByBatchWrite (final_ops 9)
               (WriteBatch ByBatchWrite [OpErase (CoinEntry (13, 0)), OpErase (CoinIndexEntry (13, 0) 7)]
                  (WriteBatch ByBatchWrite (marker_ops 9 0) (db0 []))))"
    by (simp add: BatchWrite_def t BatchWrite_from_tip_def l s)
  have w: "WriteBatch ByBatchWrite (final_ops 9)
               (WriteBatch ByBatchWrite [OpErase (CoinEntry (13, 0)), OpErase (CoinIndexEntry (13, 0) 7)]
                  (WriteBatch ByBatchWrite (marker_ops 9 0) (db0 [])))
      = \<lparr>store = [(DB_BEST_BLOCK, VHash 9)],
         written = [(ByBatchWrite, marker_ops 9 0),
                    (ByBatchWrite, [OpErase (CoinEntry (13, 0)), OpErase (CoinIndexEntry (13, 0) 7)]),
                    (ByBatchWrite, final_ops 9)]\<rparr>"
    by (simp add: WriteBatch_def marker_ops_def final_ops_def db0_def del_def)
  have d: "delta_ops delta_clean_first = [OpErase (CoinEntry (13, 0)), OpErase (CoinIndexEntry (13, 0) 7)]"
    by (simp add: delta_ops_def delta_clean_first_def coin_ops_def dirty0_def coin0_def
          IsBindPlotter_def IsPoint_def IsStaking_def)
  have m: "marker_ops 9 0 = [OpErase DB_BEST_BLOCK, OpWrite DB_HEAD_BLOCKS (VHashes [9, 0])]"
    by (simp add: marker_ops_def)
  have n: "OpErase (CoinEntry (13, 0)) \<notin> set (marker_ops 9 0)"
    by (simp add: marker_ops_def)
  from b w d m n show ?thesis by (simp only: simp_thms)
qed



lemma map_of_at: "map_of (at k d f m) = (map_of m)(k \<mapsto> f (get_or d m k))"
  by (induction m) (auto simp: get_or_def fun_eq_iff)

lemma keys_at_present: "k \<in> fst ` set m \<Longrightarrow> map fst (at k d f m) = map fst m"
  by (induction m) auto

lemma keys_at: "set (map fst (at k d f m)) = insert k (set (map fst m))"
  by (induction m) auto

lemma distinct_at: "distinct (map fst m) \<Longrightarrow> distinct (map fst (at k d f m))"
proof (induction m)
  case Nil
  then show ?case by simp
next
  case (Cons p ps)
  have "set (map fst (at k d f ps)) = insert k (set (map fst ps))" by (rule keys_at)
  with Cons show ?case by auto
qed

lemma load_prev_user_lookup:
  "map_of (load_prev_user env db ph pool ps T e users) u =
     (if u = accountID e then
        (case map_of users u of
           None \<Rightarrow> None
         | Some st \<Rightarrow>
             Some (CUserStatus (userStake st)
                     ((if carried_forward env db ph pool e then withdrawableAmount e else userWithdrawable st)
                      + reward_share (rewardAmount ps) (stakeAmount e) T)))
      else map_of users u)"
  by (auto simp: load_prev_user_def map_of_at get_or_def Let_def carried_forward_def reward_share_def
           split: option.splits)

lemma fold_load_prev_user_other:
  "u \<notin> accountID ` set pre \<Longrightarrow>
     map_of (fold (load_prev_user env db ph pool ps T) pre users) u = map_of users u"
  by (induction pre arbitrary: users) (auto simp: load_prev_user_lookup)

lemma fold_load_prev_user_hit:
  assumes "distinct (map accountID pre)" and "e \<in> set pre"
    and "map_of users (accountID e) = Some (CUserStatus s w0)"
  shows "map_of (fold (load_prev_user env db ph pool ps T) pre users) (accountID e) =
           Some (CUserStatus s
                   ((if carried_forward env db ph pool e then withdrawableAmount e else w0)
                    + reward_share (rewardAmount ps) (stakeAmount e) T))"
  using assms
proof (induction pre arbitrary: users)
  case Nil
  then show ?case by simp
next
  case (Cons x xs)
  show ?case
  proof (cases "x = e")
    case True
    with Cons.prems(1) have "accountID e \<notin> accountID ` set xs" by auto
    from fold_load_prev_user_other [OF this]
    show ?thesis using True Cons.prems(3) by (simp add: load_prev_user_lookup)
  next
    case False
    with Cons.prems have e: "e \<in> set xs" and ne: "accountID x \<noteq> accountID e"
      by auto
    have "map_of (load_prev_user env db ph pool ps T x users) (accountID e) = Some (CUserStatus s w0)"
      using ne Cons.prems(3) by (simp add: load_prev_user_lookup)
    from Cons.IH [OF _ e this] Cons.prems(1) show ?thesis by simp
  qed
qed

lemma get_or_at: "get_or d (at k d f m) k' = (if k' = k then f (get_or d m k) else get_or d m k')"
  by (simp add: get_or_def map_of_at)

lemma sum_rewards_result:
  "n \<le> length chain \<Longrightarrow>
     \<exists>st'. sum_rewards env n chain st = Inr (st', drop n chain)
       \<and> (\<forall>p. rewardAmount (get_or (CPoolStatus 0 0) st' p) =
                rewardAmount (get_or (CPoolStatus 0 0) st p)
                + sum_list (map (\<lambda>b. if minerRewardID b = p
                                      then GetBlockStakingPoolSubsidy env (blockHeight b) else 0)
                              (take n chain)))"
proof (induction n arbitrary: chain st)
  case 0
  then show ?case by simp
next
  case (Suc n)
  then obtain b prev where c: "chain = b # prev" by (cases chain) auto
  let ?st = "at (minerRewardID b) (CPoolStatus 0 0)
          (\<lambda>s. CPoolStatus (prevStake s) (rewardAmount s + GetBlockStakingPoolSubsidy env (blockHeight b))) st"
  from Suc.prems c have "n \<le> length prev" by simp
  from Suc.IH [OF this, of ?st] obtain st' where
    r: "sum_rewards env n prev ?st = Inr (st', drop n prev)"
       "\<forall>p. rewardAmount (get_or (CPoolStatus 0 0) st' p) =
                rewardAmount (get_or (CPoolStatus 0 0) ?st p)
                + sum_list (map (\<lambda>b. if minerRewardID b = p
                                      then GetBlockStakingPoolSubsidy env (blockHeight b) else 0)
                              (take n prev))"
    by blast
  show ?case
    by (rule exI [of _ st']) (use r c in \<open>simp add: get_or_at\<close>)
qed

lemma fold_prev_stake_reward:
  "rewardAmount (get_or (CPoolStatus 0 0)
      (fold (\<lambda>pool. at (poolID pool) (CPoolStatus 0 0)
                (\<lambda>s. CPoolStatus (poolStakeAmount pool) (rewardAmount s))) pools st) p)
   = rewardAmount (get_or (CPoolStatus 0 0) st p)"
  by (induction pools arbitrary: st) (simp_all add: get_or_at)

lemma load_prev_epoch_result:
  assumes "blockHeight (hd chain) \<ge> nSaturnActiveHeight (consensus env) + nSaturnEpockBlocks (consensus env)"
    and "nat (nSaturnEpockBlocks (consensus env)) < length chain"
    and "db_Read db (StakingPoolEntry (GetBlockHash (chain ! nat (nSaturnEpockBlocks (consensus env)))))
           = Some (VPools prevEpochPools)"
    and "prevEpochPools \<noteq> []"
  shows "\<exists>st. load_prev_epoch env db chain epochPoolUsers =
           Inr (map (load_prev_pool env db (GetBlockHash (chain ! nat (nSaturnEpockBlocks (consensus env))))
                       st (sum_list (map poolStakeAmount prevEpochPools))) epochPoolUsers)
         \<and> (\<forall>p. rewardAmount (get_or (CPoolStatus 0 0) st p) = epoch_reward env chain p)"
proof -
  let ?n = "nat (nSaturnEpockBlocks (consensus env))"
  from assms(2) have "?n \<le> length chain" by simp
  from sum_rewards_result [OF this, of env "[]"] obtain rewards where
    r: "sum_rewards env ?n chain [] = Inr (rewards, drop ?n chain)"
       "\<forall>p. rewardAmount (get_or (CPoolStatus 0 0) rewards p) = epoch_reward env chain p"
    by (auto simp: epoch_reward_def get_or_def)
  have d: "drop ?n chain = chain ! ?n # drop (Suc ?n) chain"
    using assms(2) by (simp add: Cons_nth_drop_Suc)
  let ?st = "fold (\<lambda>pool. at (poolID pool) (CPoolStatus 0 0)
                (\<lambda>s. CPoolStatus (poolStakeAmount pool) (rewardAmount s))) prevEpochPools rewards"
  have "load_prev_epoch env db chain epochPoolUsers =
           Inr (map (load_prev_pool env db (GetBlockHash (chain ! ?n))
                       ?st (sum_list (map poolStakeAmount prevEpochPools))) epochPoolUsers)"
    unfolding load_prev_epoch_def using assms(1,3,4) by (simp add: r(1) d Let_def)
  moreover have "\<forall>p. rewardAmount (get_or (CPoolStatus 0 0) ?st p) = epoch_reward env chain p"
    using r(2) by (simp add: fold_prev_stake_reward)
  ultimately show ?thesis by blast
qed

text \<open>
  C2, as amended. For a pool of the new epoch and a user of it with an entry in the
  pool's list of the previous epoch, the amount added to what is carried forward is
  \<open>reward * userPriorStake / totalPriorStake\<close>, truncated, where \<open>reward\<close> is what the
  pool earned over the blocks of the previous epoch and \<open>totalPriorStake\<close> is the sum of
  the stakes of all pools in the previous epoch's pool list; nothing is added when the
  pool earned no reward or that sum is not positive.
\<close>

theorem prev_epoch_reward_added:
  assumes "blockHeight (hd chain) \<ge> nSaturnActiveHeight (consensus env) + nSaturnEpockBlocks (consensus env)"
    and "nat (nSaturnEpockBlocks (consensus env)) < length chain"
    and "db_Read db (StakingPoolEntry (GetBlockHash (chain ! nat (nSaturnEpockBlocks (consensus env)))))
           = Some (VPools prevEpochPools)"
    and "prevEpochPools \<noteq> []"
    and "(pool, poolUsers) \<in> set epochPoolUsers"
    and "db_Read db (StakingPoolUsersEntry (GetBlockHash (chain ! nat (nSaturnEpockBlocks (consensus env)))) pool)
           = Some (VUsers pre)"
    and "distinct (map accountID pre)"
    and "e \<in> set pre"
    and "map_of poolUsers (accountID e) = Some (CUserStatus s w0)"
  shows "\<exists>result poolUsers'.
           load_prev_epoch env db chain epochPoolUsers = Inr result
           \<and> (pool, poolUsers') \<in> set result
           \<and> map_of poolUsers' (accountID e) =
               Some (CUserStatus s
                 ((if carried_forward env db (GetBlockHash (chain ! nat (nSaturnEpockBlocks (consensus env)))) pool e
                   then withdrawableAmount e else w0)
                  + reward_share (epoch_reward env chain pool) (stakeAmount e)
                      (sum_list (map poolStakeAmount prevEpochPools))))"
proof -
  let ?ph = "GetBlockHash (chain ! nat (nSaturnEpockBlocks (consensus env)))"
  let ?T = "sum_list (map poolStakeAmount prevEpochPools)"
  from load_prev_epoch_result [OF assms(1-4), of epochPoolUsers] obtain st where
    l: "load_prev_epoch env db chain epochPoolUsers = Inr (map (load_prev_pool env db ?ph st ?T) epochPoolUsers)"
       "\<forall>p. rewardAmount (get_or (CPoolStatus 0 0) st p) = epoch_reward env chain p"
    by blast
  let ?r = "load_prev_pool env db ?ph st ?T (pool, poolUsers)"
  have f: "fst ?r = pool"
    by (simp add: load_prev_pool_def Let_def split: option.splits DBValue.splits)
  have "?r \<in> set (map (load_prev_pool env db ?ph st ?T) epochPoolUsers)"
    using assms(5) by auto
  then have m: "(pool, snd ?r) \<in> set (map (load_prev_pool env db ?ph st ?T) epochPoolUsers)"
    using f by (metis prod.collapse)
  have "map_of (snd ?r) (accountID e) =
               Some (CUserStatus s
                 ((if carried_forward env db ?ph pool e then withdrawableAmount e else w0)
                  + reward_share (epoch_reward env chain pool) (stakeAmount e) ?T))"
    using fold_load_prev_user_hit [OF assms(7,8,9)] assms(6) l(2)
    by (simp add: load_prev_pool_def Let_def)
  with l(1) m show ?thesis by blast
qed

lemma chain0_nth: "chain0 ! nat (nSaturnEpockBlocks (consensus env0)) = block0 3 110 21"
  by (simp add: chain0_def env0_def params0_def nth_append)

lemma epoch_reward0: "epoch_reward env0 chain0 21 = 40"
  by (simp add: epoch_reward_def chain0_def env0_def params0_def block0_def sum_list_replicate)

theorem prev_epoch_reward_added_witness:
  "blockHeight (hd chain0) \<ge> nSaturnActiveHeight (consensus env0) + nSaturnEpockBlocks (consensus env0)
   \<and> nat (nSaturnEpockBlocks (consensus env0)) < length chain0
   \<and> db_Read prev_db0 (StakingPoolEntry (GetBlockHash (chain0 ! nat (nSaturnEpockBlocks (consensus env0)))))
        = Some (VPools [StakingPool 21 (5, 0) 100, StakingPool 22 (6, 0) 300])
   \<and> [StakingPool 21 (5, 0) 100, StakingPool 22 (6, 0) 300] \<noteq> []
   \<and> (21, [(7, CUserStatus 200 0)]) \<in> set [(21::nat, [(7::nat, CUserStatus 200 0)])]
   \<and> db_Read prev_db0 (StakingPoolUsersEntry (GetBlockHash (chain0 ! nat (nSaturnEpockBlocks (consensus env0)))) 21)
        = Some (VUsers [StakingPoolUser 7 100 0])
   \<and> distinct (map accountID [StakingPoolUser 7 100 0])
   \<and> StakingPoolUser 7 100 0 \<in> set [StakingPoolUser 7 100 0]
   \<and> map_of [(7, CUserStatus 200 0)] (accountID (StakingPoolUser 7 100 0)) = Some (CUserStatus 200 0)
   \<and> (\<exists>result poolUsers'.
         load_prev_epoch env0 prev_db0 chain0 [(21, [(7, CUserStatus 200 0)])] = Inr result
         \<and> (21, poolUsers') \<in> set result
         \<and> map_of poolUsers' 7 = Some (CUserStatus 200 10))"
proof -
  have 1: "blockHeight (hd chain0) \<ge> nSaturnActiveHeight (consensus env0) + nSaturnEpockBlocks (consensus env0)"
    by (simp add: chain0_def env0_def params0_def block0_def)
  have 2: "nat (nSaturnEpockBlocks (consensus env0)) < length chain0"
    by (simp add: chain0_def env0_def params0_def)
  have 3: "db_Read prev_db0 (StakingPoolEntry (GetBlockHash (chain0 ! nat (nSaturnEpockBlocks (consensus env0)))))
        = Some (VPools [StakingPool 21 (5, 0) 100, StakingPool 22 (6, 0) 300])"
    by (simp add: chain0_nth) (simp add: prev_db0_def db0_def db_Read_def block0_def)
  have 4: "[StakingPool 21 (5, 0) 100, StakingPool 22 (6, 0) 300] \<noteq> []" by simp
  have 5: "(21, [(7, CUserStatus 200 0)]) \<in> set [(21::nat, [(7::nat, CUserStatus 200 0)])]" by simp
  have 6: "db_Read prev_db0 (StakingPoolUsersEntry (GetBlockHash (chain0 ! nat (nSaturnEpockBlocks (consensus env0)))) 21)
        = Some (VUsers [StakingPoolUser 7 100 0])"
    by (simp add: chain0_nth) (simp add: prev_db0_def db0_def db_Read_def block0_def)
  have 7: "distinct (map accountID [StakingPoolUser 7 100 0])" by simp
  have 8: "StakingPoolUser 7 100 0 \<in> set [StakingPoolUser 7 100 0]" by simp
  have 9: "map_of [(7, CUserStatus 200 0)] (accountID (StakingPoolUser 7 100 0)) = Some (CUserStatus 200 0)"
    by simp
  have c: "carried_forward env0 prev_db0 (GetBlockHash (chain0 ! nat (nSaturnEpockBlocks (consensus env0)))) 21
             (StakingPoolUser 7 100 0)"
    by (simp add: carried_forward_def env0_def)
  have s: "reward_share (epoch_reward env0 chain0 21) (stakeAmount (StakingPoolUser 7 100 0))
             (sum_list (map poolStakeAmount [StakingPool 21 (5, 0) 100, StakingPool 22 (6, 0) 300])) = 10"
    by (simp add: epoch_reward0 reward_share_def CalcStakePoolUserReward_def signed_divide_int_def)
  from prev_epoch_reward_added [OF 1 2 3 4 5 6 7 8 9] c s
  have "\<exists>result poolUsers'.
         load_prev_epoch env0 prev_db0 chain0 [(21, [(7, CUserStatus 200 0)])] = Inr result
         \<and> (21, poolUsers') \<in> set result
         \<and> map_of poolUsers' 7 = Some (CUserStatus 200 10)"
    by simp
  with 1 2 3 4 5 6 7 8 9 show ?thesis by blast
qed

text \<open>
  The claim as stated fails: pool 21 held a stake of 100 of the 400 staked in the
  previous epoch and earned 40; its user with the whole stake of 100 is credited
  \<open>40 * 100 / 400 = 10\<close>, not \<open>40 * 100 / 100 = 40\<close>.
\<close>

theorem reward_divided_by_all_pools_stake:
  "load_prev_epoch env0 prev_db0 chain0 [(21, [(7, CUserStatus 200 0)])]
     = Inr [(21, [(7, CUserStatus 200 10)])]
   \<and> epoch_reward env0 chain0 21 = 40
   \<and> db_Read prev_db0 (StakingPoolEntry 3)
       = Some (VPools [StakingPool 21 (5, 0) 100, StakingPool 22 (6, 0) 300])
   \<and> db_Read prev_db0 (StakingPoolUsersEntry 3 21) = Some (VUsers [StakingPoolUser 7 100 0])
   \<and> CalcStakePoolUserReward 40 100 100 = 40"
proof -
  have r: "sum_rewards env0 (nat (nSaturnEpockBlocks (consensus env0))) chain0 []
             = Inr ([(21, CPoolStatus 0 40)], [block0 3 110 21])"
    by (simp add: chain0_def env0_def params0_def block0_def eval_nat_numeral)
  have "load_prev_epoch env0 prev_db0 chain0 [(21, [(7, CUserStatus 200 0)])]
     = Inr [(21, [(7, CUserStatus 200 10)])]"
    unfolding load_prev_epoch_def
    apply (simp add: r)
    apply (simp add: chain0_def env0_def params0_def block0_def prev_db0_def db0_def db_Read_def
        db_Exists_def load_prev_pool_def load_prev_user_def get_or_def Let_def
        CalcStakePoolUserReward_def signed_divide_int_def)
    done
  moreover have "CalcStakePoolUserReward 40 100 100 = 40"
    by (simp add: CalcStakePoolUserReward_def signed_divide_int_def)
  moreover have "db_Read prev_db0 (StakingPoolEntry 3)
       = Some (VPools [StakingPool 21 (5, 0) 100, StakingPool 22 (6, 0) 300])"
    "db_Read prev_db0 (StakingPoolUsersEntry 3 21) = Some (VUsers [StakingPoolUser 7 100 0])"
    by (simp_all add: prev_db0_def db0_def db_Read_def)
  ultimately show ?thesis using epoch_reward0 by simp
qed

lemma keys_at_image: "fst ` set (at k d f m) = insert k (fst ` set m)"
  using keys_at [of k d f m] by simp

lemma load_staking_keys:
  "load_staking env db h outs pu en = Inr (pu', en') \<Longrightarrow>
     set (map fst pu') = set (map fst pu) \<union> {p. \<exists>outpoint \<in> set outs. deposits env db h outpoint p}
     \<and> set (map fst en') = set (map fst en) \<union> {p. \<exists>outpoint \<in> set outs. enables env db outpoint p}"
proof (induction outs arbitrary: pu en)
  case Nil
  then show ?case by simp
next
  case (Cons outpoint rest)
  from Cons.prems obtain c receiverID amount lockBlocks where
    c: "db_Read db (CoinEntry outpoint) = Some (VCoin c)"
       "payload c = StakingPayload receiverID amount lockBlocks"
    by (auto split: option.splits DBValue.splits Payload.splits)
  have en_iff: "enables env db outpoint p \<longleftrightarrow>
      (receiverID = p \<and> outAccountID c = SaturnStakingGenesisID (consensus env)
       \<and> nValue c \<ge> GetInitialStakingPoolAmount env (int (nHeight c)))" for p
    by (simp add: enables_def c)
  have de_iff: "deposits env db h outpoint p \<longleftrightarrow>
      (receiverID = p \<and> outAccountID c \<noteq> SaturnStakingGenesisID (consensus env)
       \<and> uint32 (int (nHeight c) + int lockBlocks) \<ge> uint32 h)" for p
    by (simp add: deposits_def c)
  consider (skip_genesis) "outAccountID c = SaturnStakingGenesisID (consensus env)"
      "nValue c < GetInitialStakingPoolAmount env (int (nHeight c))"
    | (genesis) "outAccountID c = SaturnStakingGenesisID (consensus env)"
      "\<not> nValue c < GetInitialStakingPoolAmount env (int (nHeight c))"
    | (unlocked) "outAccountID c \<noteq> SaturnStakingGenesisID (consensus env)"
      "uint32 (int (nHeight c) + int lockBlocks) < uint32 h"
    | (deposit) "outAccountID c \<noteq> SaturnStakingGenesisID (consensus env)"
      "\<not> uint32 (int (nHeight c) + int lockBlocks) < uint32 h"
    by blast
  then show ?case
  proof cases
    case skip_genesis
    with Cons.prems c have "load_staking env db h rest pu en = Inr (pu', en')" by simp
    from Cons.IH [OF this] skip_genesis show ?thesis
      by (auto simp: en_iff de_iff)
  next
    case genesis
    with Cons.prems c have
      "load_staking env db h rest pu (at receiverID (0, 0) (\<lambda>_. outpoint) en) = Inr (pu', en')"
      by simp
    from Cons.IH [OF this] genesis show ?thesis
      by (auto simp: en_iff de_iff keys_at_image)
  next
    case unlocked
    with Cons.prems c have "load_staking env db h rest pu en = Inr (pu', en')" by simp
    from Cons.IH [OF this] unlocked show ?thesis
      by (auto simp: en_iff de_iff)
  next
    case deposit
    with Cons.prems c have
      "load_staking env db h rest
         (at receiverID []
            (at (outAccountID c) (CUserStatus 0 0)
               (\<lambda>u. CUserStatus (userStake u + amount) (userWithdrawable u))) pu) en = Inr (pu', en')"
      by simp
    from Cons.IH [OF this] deposit show ?thesis
      by (auto simp: en_iff de_iff keys_at_image)
  qed
qed

lemma fst_load_prev_pool: "fst (load_prev_pool env db ph st T itPool) = fst itPool"
  by (simp add: load_prev_pool_def Let_def split: option.splits DBValue.splits)

lemma load_prev_epoch_keys:
  "load_prev_epoch env db chain pu = Inr pu' \<Longrightarrow> map fst pu' = map fst pu"
  unfolding load_prev_epoch_def
  by (auto simp: Let_def fst_load_prev_pool split: if_splits sum.splits list.splits option.splits DBValue.splits)

lemma mset_insort_by: "mset (insort_by lt x xs) = add_mset x (mset xs)"
  by (induction xs) auto

lemma mset_std_sort: "mset (std_sort lt xs) = mset xs"
  by (induction xs) (auto simp: std_sort_def mset_insort_by)

lemma set_std_sort: "set (std_sort lt xs) = set xs"
  using mset_std_sort [of lt xs] by (metis set_mset_mset)

lemma map_of_del: "map_of (del k s) = (map_of s)(k := None)"
  by (induction s) (auto simp: del_def fun_eq_iff)

lemma map_of_apply_op_other: "op_key op \<noteq> k \<Longrightarrow> map_of (apply_op op s) k = map_of s k"
  by (cases op) (auto simp: op_key_def map_of_put map_of_del)

lemma map_of_fold_apply_op_other:
  "\<forall>op \<in> set ops. op_key op \<noteq> k \<Longrightarrow> map_of (fold apply_op ops s) k = map_of s k"
  by (induction ops arbitrary: s) (auto simp: map_of_apply_op_other)

lemma op_key_user_ops: "op \<in> set (user_ops env eh h pool us) \<Longrightarrow> \<exists>outpoint. op_key op = CoinEntry outpoint"
  by (auto simp: user_ops_def op_key_def split: if_splits)

lemma op_key_pool_ops:
  "op \<in> set (pool_ops env eh h itPool) \<Longrightarrow>
     (\<exists>outpoint. op_key op = CoinEntry outpoint) \<or> op_key op = StakingPoolUsersEntry eh (fst itPool)"
  by (auto simp: pool_ops_def op_key_def dest: op_key_user_ops)

lemma db_Read_write_snapshot_users_other:
  assumes "p \<notin> fst ` set pu"
  shows "db_Read (write_snapshot env eh h en pu db) (StakingPoolUsersEntry eh p)
           = db_Read db (StakingPoolUsersEntry eh p)"
proof -
  have "\<forall>op \<in> set (snapshot_ops env eh h en pu). op_key op \<noteq> StakingPoolUsersEntry eh p"
  proof
    fix op assume "op \<in> set (snapshot_ops env eh h en pu)"
    then consider (pool) itPool where "itPool \<in> set pu" "op \<in> set (pool_ops env eh h itPool)"
      | (last) "op_key op = StakingPoolEntry eh"
      by (auto simp: snapshot_ops_def op_key_def)
    then show "op_key op \<noteq> StakingPoolUsersEntry eh p"
    proof cases
      case pool
      from op_key_pool_ops [OF pool(2)] pool(1) assms show ?thesis by auto
    next
      case last
      then show ?thesis by simp
    qed
  qed
  from map_of_fold_apply_op_other [OF this] write_snapshot_eff [of env eh h en pu db]
  show ?thesis by (simp add: db_Read_def)
qed

lemma keys_filter_pools:
  "fst ` set (filter_pools en pu) = fst ` set pu \<inter> fst ` set en"
  by (auto simp: filter_pools_def map_of_eq_None_iff image_iff)

lemma poolID_list_pools: "map poolID (list_pools en pu) = map fst pu"
  by (simp add: list_pools_def)

text \<open>
  C10. At an epoch boundary, over a store whose staking-receive index is sound, the
  persisted pool list holds exactly the pools that are enabled and have a deposit that
  is still locked, made by an account other than the genesis account. An enabled pool
  without such a deposit is not in the list, and no user list is written for it.
\<close>

theorem snapshot_lists_pools_with_deposits:
  assumes "0 < nSaturnEpockBlocks (consensus env)"
    and "epoch_boundary (consensus env) (blockHeight b)"
    and "staking_index_sound db"
    and "nat (nSaturnEpockBlocks (consensus env)) \<le> length prev"
  shows "\<exists>db' pools.
           TrySnapshotStakingPoolStatus env (b # prev) db = Inr db'
           \<and> db_Read db' (StakingPoolEntry (GetBlockHash b)) = Some (VPools pools)
           \<and> set (map poolID pools) = {p. enabled_pool env db p \<and> has_deposit env db (blockHeight b) p}
           \<and> (\<forall>p. enabled_pool env db p \<and> \<not> has_deposit env db (blockHeight b) p \<longrightarrow>
                  p \<notin> set (map poolID pools)
                  \<and> db_Read db' (StakingPoolUsersEntry (GetBlockHash b) p)
                      = db_Read db (StakingPoolUsersEntry (GetBlockHash b) p))"
proof -
  let ?outs = "map fst (scan_prefix db DB_COIN_STAKING_RECEIVE)"
  have "list_all (\<lambda>outpoint. case db_Read db (CoinEntry outpoint) of
                Some (VCoin c) \<Rightarrow> IsStaking c | _ \<Rightarrow> False) ?outs"
    using assms(3) by (simp add: staking_index_sound_def list_all_iff)
  from load_staking_succeeds [OF this] obtain allPoolUsers en where
    l: "load_staking env db (blockHeight b) ?outs [] [] = Inr (allPoolUsers, en)"
    by (metis surj_pair)
  from assms(4) have "nat (nSaturnEpockBlocks (consensus env)) < length (b # prev)" by simp
  from load_prev_epoch_succeeds [OF this] obtain pu where
    p: "load_prev_epoch env db (b # prev) (filter_pools en allPoolUsers) = Inr pu"
    by blast
  let ?db' = "write_snapshot env (GetBlockHash b) (blockHeight b) en pu db"
  let ?pools = "std_sort pool_before (list_pools en pu)"
  have t: "TrySnapshotStakingPoolStatus env (b # prev) db = Inr ?db'"
    by (simp add: TrySnapshot_due [OF assms(1,2)] l p)
  have r: "db_Read ?db' (StakingPoolEntry (GetBlockHash b)) = Some (VPools ?pools)"
    by (rule db_Read_write_snapshot_pools)
  from load_staking_keys [OF l] have
    k: "fst ` set allPoolUsers = {p. has_deposit env db (blockHeight b) p}"
       "fst ` set en = {p. enabled_pool env db p}"
    by (auto simp: has_deposit_def enabled_pool_def list_ex_iff)
  have "map fst pu = map fst (filter_pools en allPoolUsers)"
    using load_prev_epoch_keys [OF p] .
  then have "fst ` set pu = fst ` set (filter_pools en allPoolUsers)"
    by (metis set_map)
  with k have pk: "fst ` set pu = {p. enabled_pool env db p \<and> has_deposit env db (blockHeight b) p}"
    by (auto simp: keys_filter_pools)
  have "set (map poolID ?pools) = poolID ` set (list_pools en pu)"
    by (simp add: set_std_sort)
  also have "\<dots> = set (map poolID (list_pools en pu))" by simp
  also have "\<dots> = fst ` set pu" by (simp add: poolID_list_pools)
  finally have s: "set (map poolID ?pools)
      = {p. enabled_pool env db p \<and> has_deposit env db (blockHeight b) p}"
    using pk by simp
  have u: "\<forall>p. enabled_pool env db p \<and> \<not> has_deposit env db (blockHeight b) p \<longrightarrow>
                  p \<notin> set (map poolID ?pools)
                  \<and> db_Read ?db' (StakingPoolUsersEntry (GetBlockHash b) p)
                      = db_Read db (StakingPoolUsersEntry (GetBlockHash b) p)"
  proof (intro allI impI)
    fix p assume a: "enabled_pool env db p \<and> \<not> has_deposit env db (blockHeight b) p"
    with pk have "p \<notin> fst ` set pu" by blast
    from db_Read_write_snapshot_users_other [OF this] a s
    show "p \<notin> set (map poolID ?pools)
                  \<and> db_Read ?db' (StakingPoolUsersEntry (GetBlockHash b) p)
                      = db_Read db (StakingPoolUsersEntry (GetBlockHash b) p)"
      by blast
  qed
  from t r s u show ?thesis by blast
qed

lemma staking_db0_scan:
  "scan_prefix staking_db0 DB_COIN_STAKING_RECEIVE
     = [((41, 0), 21, VAmount 1000), ((43, 0), 21, VAmount 300), ((42, 0), 22, VAmount 1000)]"
  by (simp add: scan_prefix_def staking_db0_def db0_def)

lemma staking_db0_coins:
  "db_Read staking_db0 (CoinEntry (41, 0)) = Some (VCoin (coin0 1000 15 (StakingPayload 21 1000 100000) False))"
  "db_Read staking_db0 (CoinEntry (42, 0)) = Some (VCoin (coin0 1000 15 (StakingPayload 22 1000 100000) False))"
  "db_Read staking_db0 (CoinEntry (43, 0)) = Some (VCoin (coin0 300 7 (StakingPayload 21 300 1000) False))"
  by (simp_all add: db_Read_def staking_db0_def db0_def)

theorem snapshot_lists_pools_with_deposits_witness:
  "0 < nSaturnEpockBlocks (consensus env0)
   \<and> epoch_boundary (consensus env0) (blockHeight (block0 9 120 21))
   \<and> staking_index_sound staking_db0
   \<and> nat (nSaturnEpockBlocks (consensus env0)) \<le> length (replicate 10 (block0 3 110 21))
   \<and> enabled_pool env0 staking_db0 22 \<and> \<not> has_deposit env0 staking_db0 120 22
   \<and> enabled_pool env0 staking_db0 21 \<and> has_deposit env0 staking_db0 120 21
   \<and> (\<exists>db' pools.
         TrySnapshotStakingPoolStatus env0 (block0 9 120 21 # replicate 10 (block0 3 110 21)) staking_db0 = Inr db'
         \<and> db_Read db' (StakingPoolEntry 9) = Some (VPools pools)
         \<and> 21 \<in> set (map poolID pools) \<and> 22 \<notin> set (map poolID pools)
         \<and> db_Read db' (StakingPoolUsersEntry 9 22) = None)"
proof -
  have 1: "0 < nSaturnEpockBlocks (consensus env0)"
    by (simp add: env0_def params0_def)
  have 2: "epoch_boundary (consensus env0) (blockHeight (block0 9 120 21))"
    by (simp add: env0_def params0_def block0_def epoch_boundary_def)
  have 3: "staking_index_sound staking_db0"
    by (simp add: staking_index_sound_def staking_db0_scan staking_db0_coins IsStaking_def coin0_def)
  have 4: "nat (nSaturnEpockBlocks (consensus env0)) \<le> length (replicate 10 (block0 3 110 21))"
    by (simp add: env0_def params0_def)
  have 5: "enabled_pool env0 staking_db0 22" "enabled_pool env0 staking_db0 21"
    by (simp_all add: enabled_pool_def enables_def staking_db0_scan staking_db0_coins coin0_def env0_def params0_def)
  have 6: "\<not> has_deposit env0 staking_db0 120 22" "has_deposit env0 staking_db0 120 21"
    by (simp_all add: has_deposit_def deposits_def staking_db0_scan staking_db0_coins coin0_def env0_def
          params0_def uint32_def)
  have 7: "db_Read staking_db0 (StakingPoolUsersEntry 9 22) = None"
    by (simp add: db_Read_def staking_db0_def db0_def)
  from snapshot_lists_pools_with_deposits [OF 1 2 3 4] obtain db' pools where
    r: "TrySnapshotStakingPoolStatus env0 (block0 9 120 21 # replicate 10 (block0 3 110 21)) staking_db0 = Inr db'"
       "db_Read db' (StakingPoolEntry (GetBlockHash (block0 9 120 21))) = Some (VPools pools)"
       "set (map poolID pools) = {p. enabled_pool env0 staking_db0 p
           \<and> has_deposit env0 staking_db0 (blockHeight (block0 9 120 21)) p}"
       "\<forall>p. enabled_pool env0 staking_db0 p \<and> \<not> has_deposit env0 staking_db0 (blockHeight (block0 9 120 21)) p \<longrightarrow>
                  p \<notin> set (map poolID pools)
                  \<and> db_Read db' (StakingPoolUsersEntry (GetBlockHash (block0 9 120 21)) p)
                      = db_Read staking_db0 (StakingPoolUsersEntry (GetBlockHash (block0 9 120 21)) p)"
    by blast
  have h: "blockHeight (block0 9 120 21) = 120" "GetBlockHash (block0 9 120 21) = 9"
    by (simp_all add: block0_def)
  from r(3) 5 6 have a: "21 \<in> set (map poolID pools)" "22 \<notin> set (map poolID pools)"
    by (auto simp: h)
  from r(4) 5 6 7 have b: "db_Read db' (StakingPoolUsersEntry 9 22) = None"
    by (simp add: h)
  from r(1,2) a b have "\<exists>db' pools.
         TrySnapshotStakingPoolStatus env0 (block0 9 120 21 # replicate 10 (block0 3 110 21)) staking_db0 = Inr db'
         \<and> db_Read db' (StakingPoolEntry 9) = Some (VPools pools)
         \<and> 21 \<in> set (map poolID pools) \<and> 22 \<notin> set (map poolID pools)
         \<and> db_Read db' (StakingPoolUsersEntry 9 22) = None"
    by (auto simp: h)
  with 1 2 3 4 5 6 show ?thesis by blast
qed

lemma checked_nonneg: "checked r = Inr v \<Longrightarrow> 0 \<le> v"
  by (auto simp: checked_def assert_nonneg_def split: sum.splits if_splits)

lemma checked_raw: "checked r = Inr v \<Longrightarrow> r = Inr v"
  by (auto simp: checked_def assert_nonneg_def split: sum.splits if_splits)

lemma checked_negative: "r = Inr v \<Longrightarrow> v < 0 \<Longrightarrow> checked r = Inl AssertionFailed"
  by (simp add: checked_def assert_nonneg_def)

lemma balance_pair_Inr:
  assumes "balance_pair db sp rp isKind account m bal = Inr out"
  shows "(bal = None \<longrightarrow> out = None)
       \<and> (\<forall>b0 b1. bal = Some (b0, b1) \<longrightarrow>
            (\<exists>s r. out = Some (s, r)
               \<and> (if b0 \<noteq> - 1 then 0 \<le> s \<and> raw_send db sp isKind account m = Inr s else s = b0)
               \<and> (if b1 \<noteq> - 1 then 0 \<le> r \<and> raw_receive db rp isKind account m = Inr r else r = b1)))"
  using assms
  by (auto simp: balance_pair_def checked_nonneg checked_raw split: option.splits sum.splits if_splits)

lemma GetAccountBalance_Inr:
  assumes "GetAccountBalance env db account wantBind balancePoint balanceStaking m
             = Inr (availableBalance, bind, point, staking)"
  shows "checked (raw_available db account m) = Inr availableBalance"
    and "(if wantBind then map_sum id Some (checked (raw_bindplotter env db account m)) else Inr None)
           = Inr bind"
    and "balance_pair db DB_COIN_POINT_SEND DB_COIN_POINT_RECEIVE IsPoint account m balancePoint
           = Inr point"
    and "balance_pair db DB_COIN_STAKING_SEND DB_COIN_STAKING_RECEIVE IsStaking account m balanceStaking
           = Inr staking"
proof -
  obtain a where a: "checked (raw_available db account m) = Inr a"
    using assms unfolding GetAccountBalance_def by (cases "checked (raw_available db account m)") simp_all
  obtain b where b: "(if wantBind then map_sum id Some (checked (raw_bindplotter env db account m))
      else Inr None) = Inr b"
    using assms a unfolding GetAccountBalance_def
    by (cases "if wantBind then map_sum id Some (checked (raw_bindplotter env db account m)) else Inr None")
       simp_all
  obtain p where p: "balance_pair db DB_COIN_POINT_SEND DB_COIN_POINT_RECEIVE IsPoint account m balancePoint
           = Inr p"
    using assms a b unfolding GetAccountBalance_def
    by (cases "balance_pair db DB_COIN_POINT_SEND DB_COIN_POINT_RECEIVE IsPoint account m balancePoint")
       simp_all
  obtain s where s: "balance_pair db DB_COIN_STAKING_SEND DB_COIN_STAKING_RECEIVE IsStaking account m balanceStaking
           = Inr s"
    using assms a b p unfolding GetAccountBalance_def
    by (cases "balance_pair db DB_COIN_STAKING_SEND DB_COIN_STAKING_RECEIVE IsStaking account m balanceStaking")
       simp_all
  from assms a b p s have "a = availableBalance \<and> b = bind \<and> p = point \<and> s = staking"
    unfolding GetAccountBalance_def by simp
  with a b p s show
    "checked (raw_available db account m) = Inr availableBalance"
    "(if wantBind then map_sum id Some (checked (raw_bindplotter env db account m)) else Inr None)
           = Inr bind"
    "balance_pair db DB_COIN_POINT_SEND DB_COIN_POINT_RECEIVE IsPoint account m balancePoint
           = Inr point"
    "balance_pair db DB_COIN_STAKING_SEND DB_COIN_STAKING_RECEIVE IsStaking account m balanceStaking
           = Inr staking"
    by simp_all
qed

lemma user_before_key: "user_before a b \<longleftrightarrow> user_key a < user_key b"
  by (auto simp: user_before_def user_key_def less_prod_def)

lemma pool_before_key: "pool_before a b \<longleftrightarrow> pool_key a < pool_key b"
  by (auto simp: pool_before_def pool_key_def less_prod_def)

lemma insort_by_key:
  assumes "\<And>a b. lt a b \<longleftrightarrow> key a < key b"
  shows "insort_by lt x xs = insort_key key x xs"
  by (induction xs) (auto simp: assms)

lemma std_sort_key:
  assumes "\<And>a b. lt a b \<longleftrightarrow> key a < key b"
  shows "std_sort lt xs = sort_key key xs"
  by (induction xs) (simp_all add: std_sort_def sort_key_def insort_by_key [OF assms])

lemma std_sort_sorted:
  assumes "\<And>a b. lt a b \<longleftrightarrow> key a < (key b :: 'k :: linorder)"
  shows "sorted_wrt (\<lambda>x y. \<not> lt y x) (std_sort lt xs)"
proof -
  have "sorted (map key (sort_key key xs))" by simp
  then have "sorted_wrt (\<lambda>x y. key x \<le> key y) (sort_key key xs)"
    by (simp add: sorted_map)
  then show ?thesis
    by (simp add: std_sort_key [OF assms] assms not_less)
qed

lemma std_sort_unique:
  assumes k: "\<And>a b. lt a b \<longleftrightarrow> key a < (key b :: 'k :: linorder)"
    and m: "mset xs = mset ys"
    and i: "inj_on key (set xs)"
  shows "std_sort lt xs = std_sort lt ys"
proof -
  have s: "set ys = set xs" using m by (metis set_mset_mset)
  have "map key (sort_key key xs) = sort (map key xs)"
    by (rule properties_for_sort [symmetric]) simp_all
  moreover have "map key (sort_key key ys) = sort (map key xs)"
    by (rule properties_for_sort [symmetric]) (simp_all add: m [symmetric])
  ultimately have "map key (sort_key key xs) = map key (sort_key key ys)" by simp
  moreover have "inj_on key (set (sort_key key xs) \<union> set (sort_key key ys))"
    using i s by simp
  ultimately have "sort_key key xs = sort_key key ys"
    by (rule map_inj_on)
  then show ?thesis by (simp add: std_sort_key [OF k])
qed

lemma map_of_fold_pool_ops:
  "map_of (fold apply_op (pool_ops env eh h itPool) s) (StakingPoolUsersEntry eh (fst itPool))
     = Some (VUsers (std_sort user_before (list_users (snd itPool))))"
  by (simp add: pool_ops_def map_of_put)

lemma db_Read_write_snapshot_users:
  assumes "distinct (map fst pu)" and "(p, us) \<in> set pu"
  shows "db_Read (write_snapshot env eh h en pu db) (StakingPoolUsersEntry eh p)
           = Some (VUsers (std_sort user_before (list_users us)))"
proof -
  from assms(2) obtain pre post where sp: "pu = pre @ (p, us) # post"
    by (meson split_list)
  with assms(1) have np: "p \<notin> fst ` set post" by auto
  let ?k = "StakingPoolUsersEntry eh p"
  let ?tail = "concat (map (pool_ops env eh h) post) @
     [OpWrite (StakingPoolEntry eh) (VPools (std_sort pool_before (list_pools en pu)))]"
  have t: "\<forall>op \<in> set ?tail. op_key op \<noteq> ?k"
  proof
    fix op assume "op \<in> set ?tail"
    then consider (pool) itPool where "itPool \<in> set post" "op \<in> set (pool_ops env eh h itPool)"
      | (last) "op_key op = StakingPoolEntry eh"
      by (auto simp: op_key_def)
    then show "op_key op \<noteq> ?k"
    proof cases
      case pool
      from op_key_pool_ops [OF pool(2)] pool(1) np show ?thesis by auto
    next
      case last
      then show ?thesis by simp
    qed
  qed
  have "snapshot_ops env eh h en pu =
          concat (map (pool_ops env eh h) pre) @ pool_ops env eh h (p, us) @ ?tail"
    by (simp add: snapshot_ops_def sp)
  then have "map_of (fold apply_op (snapshot_ops env eh h en pu) (store db)) ?k
      = map_of (fold apply_op (pool_ops env eh h (p, us))
                 (fold apply_op (concat (map (pool_ops env eh h) pre)) (store db))) ?k"
    using map_of_fold_apply_op_other [OF t] by simp
  also have "\<dots> = Some (VUsers (std_sort user_before (list_users us)))"
    using map_of_fold_pool_ops [of env eh h "(p, us)"] by simp
  finally show ?thesis
    using write_snapshot_eff [of env eh h en pu db] by (simp add: db_Read_def)
qed

lemma load_staking_distinct:
  "load_staking env db h outs pu en = Inr (pu', en') \<Longrightarrow> distinct (map fst pu)
     \<Longrightarrow> distinct (map fst pu')"
proof (induction outs arbitrary: pu en)
  case Nil
  then show ?case by simp
next
  case (Cons outpoint rest)
  from Cons.prems(1) obtain c receiverID amount lockBlocks where
    c: "db_Read db (CoinEntry outpoint) = Some (VCoin c)"
       "payload c = StakingPayload receiverID amount lockBlocks"
    by (auto split: option.splits DBValue.splits Payload.splits)
  let ?pu = "at receiverID []
            (at (outAccountID c) (CUserStatus 0 0)
               (\<lambda>u. CUserStatus (userStake u + amount) (userWithdrawable u))) pu"
  have dp: "distinct (map fst ?pu)" using Cons.prems(2) by (rule distinct_at)
  from Cons.prems(1) c have
    "(\<exists>en1. load_staking env db h rest pu en1 = Inr (pu', en'))
     \<or> (\<exists>en1. load_staking env db h rest ?pu en1 = Inr (pu', en'))"
    by (auto split: if_splits)
  then show ?case
    using Cons.IH Cons.prems(2) dp by blast
qed

lemma same_status_maps_keys:
  assumes "same_status_maps pu pu'"
  shows "mset (map fst pu') = mset (map fst pu)"
proof -
  let ?h = "\<lambda>it :: CAccountID \<times> CUserStatusMap. (fst it, mset (snd it))"
  from assms have e: "mset (map ?h pu) = mset (map ?h pu')"
    unfolding same_status_maps_def .
  have a: "mset (map fst (map ?h pu)) = mset (map fst (map ?h pu'))"
    using arg_cong [OF e, of "image_mset fst"] by (simp only: mset_map)
  have b: "map fst (map ?h qs) = map fst qs" for qs
    by (induction qs) simp_all
  from a have "mset (map fst pu) = mset (map fst pu')"
    by (simp only: b)
  then show ?thesis by (rule sym)
qed

lemma same_status_maps_users:
  assumes "same_status_maps pu pu'" and "(p, us) \<in> set pu"
  shows "\<exists>us'. (p, us') \<in> set pu' \<and> mset us' = mset us"
proof -
  let ?h = "\<lambda>it :: CAccountID \<times> CUserStatusMap. (fst it, mset (snd it))"
  from assms(1) have e: "mset (map ?h pu) = mset (map ?h pu')"
    unfolding same_status_maps_def .
  have s: "set (map ?h pu) = set (map ?h pu')"
    using arg_cong [OF e, of set_mset] by (simp only: set_mset_mset)
  from assms(2) have "?h (p, us) \<in> set (map ?h pu)"
    by (simp only: set_map) (rule imageI)
  with s have "(p, mset us) \<in> set (map ?h pu')" by simp
  then obtain it where "it \<in> set pu'" "(p, mset us) = ?h it" by auto
  then have "(p, snd it) \<in> set pu' \<and> mset (snd it) = mset us"
    by (cases it) auto
  then show ?thesis by blast
qed

lemma sum_stakes_mset:
  "sum_list (map f us) = sum_mset (image_mset f (mset us))"
  by (induction us) simp_all

lemma same_status_maps_pools:
  assumes "same_status_maps pu pu'"
  shows "mset (list_pools en pu') = mset (list_pools en pu)"
proof -
  let ?h = "\<lambda>it :: CAccountID \<times> CUserStatusMap. (fst it, mset (snd it))"
  let ?G = "\<lambda>x. StakingPool (fst x) (get_or (0, 4294967295) en (fst x))
                             (sum_mset (image_mset (\<lambda>u. userStake (snd u)) (snd x)))"
  from assms have e: "mset (map ?h pu) = mset (map ?h pu')"
    unfolding same_status_maps_def .
  have l: "list_pools en qs = map ?G (map ?h qs)" for qs
    by (induction qs) (simp_all add: list_pools_def sum_stakes_mset)
  have "mset (map ?G (map ?h pu)) = mset (map ?G (map ?h pu'))"
    using arg_cong [OF e, of "image_mset ?G"] by (simp only: mset_map)
  then show ?thesis by (simp only: l)
qed

lemma inj_on_pool_key:
  assumes "distinct (map fst pu)"
  shows "inj_on pool_key (set (list_pools en pu))"
proof -
  from assms have "distinct (map poolID (list_pools en pu))"
    by (simp add: poolID_list_pools)
  then have "inj_on poolID (set (list_pools en pu))"
    by (simp add: distinct_map)
  then show ?thesis
    by (auto simp: inj_on_def pool_key_def)
qed

lemma inj_on_user_key:
  assumes "distinct (map fst us)"
  shows "inj_on user_key (set (list_users us))"
proof -
  have "map accountID (list_users us) = map fst us"
    by (simp add: list_users_def)
  with assms have "distinct (map accountID (list_users us))" by simp
  then have "inj_on accountID (set (list_users us))"
    by (simp add: distinct_map)
  then show ?thesis
    by (auto simp: inj_on_def user_key_def)
qed

lemma write_snapshot_order_independent:
  assumes d: "distinct (map fst pu)"
    and du: "\<forall>it \<in> set pu. distinct (map fst (snd it))"
    and s: "same_status_maps pu pu'"
  shows "db_Read (write_snapshot env eh h en pu' db) (StakingPoolEntry eh)
           = db_Read (write_snapshot env eh h en pu db) (StakingPoolEntry eh)"
    and "db_Read (write_snapshot env eh h en pu' db) (StakingPoolUsersEntry eh p)
           = db_Read (write_snapshot env eh h en pu db) (StakingPoolUsersEntry eh p)"
proof -
  have "std_sort pool_before (list_pools en pu) = std_sort pool_before (list_pools en pu')"
    by (rule std_sort_unique [where key = pool_key])
       (simp_all add: pool_before_key same_status_maps_pools [OF s] inj_on_pool_key [OF d])
  then show "db_Read (write_snapshot env eh h en pu' db) (StakingPoolEntry eh)
           = db_Read (write_snapshot env eh h en pu db) (StakingPoolEntry eh)"
    by (simp add: db_Read_write_snapshot_pools)
  have k: "mset (map fst pu') = mset (map fst pu)"
    by (rule same_status_maps_keys [OF s])
  then have d': "distinct (map fst pu')"
    using d by (metis mset_eq_imp_distinct_iff)
  from k have ks: "fst ` set pu' = fst ` set pu"
    by (metis set_map set_mset_mset)
  show "db_Read (write_snapshot env eh h en pu' db) (StakingPoolUsersEntry eh p)
           = db_Read (write_snapshot env eh h en pu db) (StakingPoolUsersEntry eh p)"
  proof (cases "p \<in> fst ` set pu")
    case False
    with ks have "p \<notin> fst ` set pu'" by simp
    from db_Read_write_snapshot_users_other [OF this] db_Read_write_snapshot_users_other [OF False]
    show ?thesis by simp
  next
    case True
    then obtain us where u: "(p, us) \<in> set pu" by auto
    from same_status_maps_users [OF s u] obtain us' where
      u': "(p, us') \<in> set pu'" "mset us' = mset us" by blast
    from du u have "distinct (map fst us)" by auto
    then have i: "inj_on user_key (set (list_users us))" by (rule inj_on_user_key)
    have m: "mset (list_users us) = mset (list_users us')"
      using u'(2) by (simp add: list_users_def)
    have "std_sort user_before (list_users us) = std_sort user_before (list_users us')"
      by (rule std_sort_unique [where key = user_key]) (simp_all add: user_before_key m i)
    then show ?thesis
      by (simp add: db_Read_write_snapshot_users [OF d u] db_Read_write_snapshot_users [OF d' u'(1)])
  qed
qed

lemma TrySnapshot_due_result:
  assumes "0 < nSaturnEpockBlocks (consensus env)"
    and "epoch_boundary (consensus env) (blockHeight b)"
    and "TrySnapshotStakingPoolStatus env (b # prev) db = Inr db'"
  shows "\<exists>en pu. db' = write_snapshot env (GetBlockHash b) (blockHeight b) en pu db
           \<and> distinct (map fst pu)"
proof -
  let ?outs = "map fst (scan_prefix db DB_COIN_STAKING_RECEIVE)"
  from assms(3) obtain allPoolUsers en where
    l: "load_staking env db (blockHeight b) ?outs [] [] = Inr (allPoolUsers, en)"
    unfolding TrySnapshot_due [OF assms(1,2)]
    by (cases "load_staking env db (blockHeight b) ?outs [] []") auto
  from assms(3) l obtain pu where
    p: "load_prev_epoch env db (b # prev) (filter_pools en allPoolUsers) = Inr pu"
    unfolding TrySnapshot_due [OF assms(1,2)]
    by (cases "load_prev_epoch env db (b # prev) (filter_pools en allPoolUsers)") auto
  from assms(3) l p have r: "db' = write_snapshot env (GetBlockHash b) (blockHeight b) en pu db"
    unfolding TrySnapshot_due [OF assms(1,2)] by simp
  have "distinct (map fst allPoolUsers)"
    using load_staking_distinct [OF l] by simp
  then have "distinct (map fst (filter_pools en allPoolUsers))"
    by (simp add: filter_pools_def distinct_map_filter)
  then have "distinct (map fst pu)"
    using load_prev_epoch_keys [OF p] by simp
  with r show ?thesis by blast
qed

text \<open>
  C6. The persisted lists do not depend on anything the source leaves open. At an epoch
  boundary the pool list and every pool's user list are in the order of the comparison
  (stake descending, id ascending among equal stakes). And the lists written are the
  same for every order in which the two hash maps are iterated: two enumerations of the
  same pools with the same users give the same pool list and the same user lists. The
  amounts in them are integers throughout.
\<close>

theorem snapshot_lists_deterministic:
  "(0 < nSaturnEpockBlocks (consensus env) \<and> epoch_boundary (consensus env) (blockHeight b)
      \<and> TrySnapshotStakingPoolStatus env (b # prev) db = Inr db' \<longrightarrow>
      (\<exists>pools. db_Read db' (StakingPoolEntry (GetBlockHash b)) = Some (VPools pools)
         \<and> sorted_wrt (\<lambda>x y. \<not> pool_before y x) pools
         \<and> (\<forall>p \<in> set (map poolID pools).
               \<exists>users. db_Read db' (StakingPoolUsersEntry (GetBlockHash b) p) = Some (VUsers users)
                  \<and> sorted_wrt (\<lambda>x y. \<not> user_before y x) users)))
   \<and> (distinct (map fst pu) \<and> (\<forall>it \<in> set pu. distinct (map fst (snd it))) \<and> same_status_maps pu pu' \<longrightarrow>
        db_Read (write_snapshot env eh h en pu' db) (StakingPoolEntry eh)
          = db_Read (write_snapshot env eh h en pu db) (StakingPoolEntry eh)
        \<and> (\<forall>p. db_Read (write_snapshot env eh h en pu' db) (StakingPoolUsersEntry eh p)
                 = db_Read (write_snapshot env eh h en pu db) (StakingPoolUsersEntry eh p)))"
proof (intro conjI impI)
  assume a: "0 < nSaturnEpockBlocks (consensus env) \<and> epoch_boundary (consensus env) (blockHeight b)
      \<and> TrySnapshotStakingPoolStatus env (b # prev) db = Inr db'"
  then obtain en1 pu1 where
    r: "db' = write_snapshot env (GetBlockHash b) (blockHeight b) en1 pu1 db" "distinct (map fst pu1)"
    using TrySnapshot_due_result [of env b prev db db'] by blast
  let ?pools = "std_sort pool_before (list_pools en1 pu1)"
  have 1: "db_Read db' (StakingPoolEntry (GetBlockHash b)) = Some (VPools ?pools)"
    by (simp add: r(1) db_Read_write_snapshot_pools)
  have 2: "sorted_wrt (\<lambda>x y. \<not> pool_before y x) ?pools"
    by (rule std_sort_sorted [where key = pool_key]) (rule pool_before_key)
  have 3: "\<forall>p \<in> set (map poolID ?pools).
               \<exists>users. db_Read db' (StakingPoolUsersEntry (GetBlockHash b) p) = Some (VUsers users)
                  \<and> sorted_wrt (\<lambda>x y. \<not> user_before y x) users"
  proof
    fix p assume "p \<in> set (map poolID ?pools)"
    then have "p \<in> poolID ` set (list_pools en1 pu1)" by (simp add: set_std_sort)
    then have "p \<in> set (map poolID (list_pools en1 pu1))" by simp
    then have "p \<in> set (map fst pu1)" by (simp only: poolID_list_pools)
    then obtain us where u: "(p, us) \<in> set pu1" by auto
    have "sorted_wrt (\<lambda>x y. \<not> user_before y x) (std_sort user_before (list_users us))"
      by (rule std_sort_sorted [where key = user_key]) (rule user_before_key)
    with db_Read_write_snapshot_users [OF r(2) u, of env "GetBlockHash b" "blockHeight b" en1 db]
    show "\<exists>users. db_Read db' (StakingPoolUsersEntry (GetBlockHash b) p) = Some (VUsers users)
                  \<and> sorted_wrt (\<lambda>x y. \<not> user_before y x) users"
      by (simp add: r(1))
  qed
  from 1 2 3 show "\<exists>pools. db_Read db' (StakingPoolEntry (GetBlockHash b)) = Some (VPools pools)
         \<and> sorted_wrt (\<lambda>x y. \<not> pool_before y x) pools
         \<and> (\<forall>p \<in> set (map poolID pools).
               \<exists>users. db_Read db' (StakingPoolUsersEntry (GetBlockHash b) p) = Some (VUsers users)
                  \<and> sorted_wrt (\<lambda>x y. \<not> user_before y x) users)"
    by blast
next
  assume a: "distinct (map fst pu) \<and> (\<forall>it \<in> set pu. distinct (map fst (snd it))) \<and> same_status_maps pu pu'"
  then show "db_Read (write_snapshot env eh h en pu' db) (StakingPoolEntry eh)
          = db_Read (write_snapshot env eh h en pu db) (StakingPoolEntry eh)"
    using write_snapshot_order_independent(1) [of pu pu' env eh h en db] by blast
next
  assume a: "distinct (map fst pu) \<and> (\<forall>it \<in> set pu. distinct (map fst (snd it))) \<and> same_status_maps pu pu'"
  then show "\<forall>p. db_Read (write_snapshot env eh h en pu' db) (StakingPoolUsersEntry eh p)
                 = db_Read (write_snapshot env eh h en pu db) (StakingPoolUsersEntry eh p)"
    using write_snapshot_order_independent(2) [of pu pu' env eh h en db] by blast
qed

theorem snapshot_lists_deterministic_witness:
  "0 < nSaturnEpockBlocks (consensus env0)
   \<and> epoch_boundary (consensus env0) (blockHeight (block0 9 120 21))
   \<and> (\<exists>db' pools.
         TrySnapshotStakingPoolStatus env0 (block0 9 120 21 # replicate 10 (block0 3 110 21)) staking_db0 = Inr db'
         \<and> db_Read db' (StakingPoolEntry 9) = Some (VPools pools)
         \<and> sorted_wrt (\<lambda>x y. \<not> pool_before y x) pools)
   \<and> distinct (map fst maps0)
   \<and> list_all (\<lambda>it. distinct (map fst (snd it))) maps0
   \<and> same_status_maps maps0 maps0'
   \<and> db_Read (write_snapshot env0 9 120 [] maps0' (db0 [])) (StakingPoolEntry 9)
        = db_Read (write_snapshot env0 9 120 [] maps0 (db0 [])) (StakingPoolEntry 9)
   \<and> db_Read (write_snapshot env0 9 120 [] maps0' (db0 [])) (StakingPoolUsersEntry 9 21)
        = db_Read (write_snapshot env0 9 120 [] maps0 (db0 [])) (StakingPoolUsersEntry 9 21)
   \<and> db_Read (write_snapshot env0 9 120 [] maps0 (db0 [])) (StakingPoolUsersEntry 9 21)
        = Some (VUsers [StakingPoolUser 8 700 0, StakingPoolUser 7 300 0])"
proof -
  have 1: "0 < nSaturnEpockBlocks (consensus env0)"
    by (simp add: env0_def params0_def)
  have 2: "epoch_boundary (consensus env0) (blockHeight (block0 9 120 21))"
    by (simp add: env0_def params0_def block0_def epoch_boundary_def)
  have 3: "staking_index_sound staking_db0"
    by (simp add: staking_index_sound_def staking_db0_scan staking_db0_coins IsStaking_def coin0_def)
  have 4: "nat (nSaturnEpockBlocks (consensus env0)) \<le> length (replicate 10 (block0 3 110 21))"
    by (simp add: env0_def params0_def)
  from TrySnapshot_due_succeeds [OF 1 2 3 4] obtain db' where
    t: "TrySnapshotStakingPoolStatus env0 (block0 9 120 21 # replicate 10 (block0 3 110 21)) staking_db0 = Inr db'"
    by blast
  have h: "GetBlockHash (block0 9 120 21) = 9" by (simp add: block0_def)
  have "0 < nSaturnEpockBlocks (consensus env0) \<and> epoch_boundary (consensus env0) (blockHeight (block0 9 120 21))
      \<and> TrySnapshotStakingPoolStatus env0 (block0 9 120 21 # replicate 10 (block0 3 110 21)) staking_db0 = Inr db'"
    using 1 2 t by simp
  with snapshot_lists_deterministic
         [where env = env0 and b = "block0 9 120 21" and prev = "replicate 10 (block0 3 110 21)"
            and db = staking_db0 and db' = db', THEN conjunct1]
  obtain pools where
    "db_Read db' (StakingPoolEntry (GetBlockHash (block0 9 120 21))) = Some (VPools pools)"
    "sorted_wrt (\<lambda>x y. \<not> pool_before y x) pools"
    by blast
  with t have 5: "\<exists>db' pools.
         TrySnapshotStakingPoolStatus env0 (block0 9 120 21 # replicate 10 (block0 3 110 21)) staking_db0 = Inr db'
         \<and> db_Read db' (StakingPoolEntry 9) = Some (VPools pools)
         \<and> sorted_wrt (\<lambda>x y. \<not> pool_before y x) pools"
    by (auto simp: h)
  have 6: "distinct (map fst maps0)" by (simp add: maps0_def)
  have 7: "list_all (\<lambda>it. distinct (map fst (snd it))) maps0" by (simp add: maps0_def)
  have 8: "same_status_maps maps0 maps0'"
    by (simp add: same_status_maps_def maps0_def maps0'_def)
  have "distinct (map fst maps0) \<and> (\<forall>it \<in> set maps0. distinct (map fst (snd it)))
      \<and> same_status_maps maps0 maps0'"
    using 6 7 8 by (simp add: list_all_iff)
  with snapshot_lists_deterministic
         [where pu = maps0 and pu' = maps0' and env = env0 and eh = 9 and h = 120 and en = "[]"
            and db = "db0 []", THEN conjunct2]
  have 9: "db_Read (write_snapshot env0 9 120 [] maps0' (db0 [])) (StakingPoolEntry 9)
        = db_Read (write_snapshot env0 9 120 [] maps0 (db0 [])) (StakingPoolEntry 9)"
    and 10: "db_Read (write_snapshot env0 9 120 [] maps0' (db0 [])) (StakingPoolUsersEntry 9 21)
        = db_Read (write_snapshot env0 9 120 [] maps0 (db0 [])) (StakingPoolUsersEntry 9 21)"
    by blast+
  have "(21, [(7, CUserStatus 300 0), (8, CUserStatus 700 0)]) \<in> set maps0"
    by (simp add: maps0_def)
  from db_Read_write_snapshot_users [OF 6 this, of env0 9 120 "[]" "db0 []"]
  have 11: "db_Read (write_snapshot env0 9 120 [] maps0 (db0 [])) (StakingPoolUsersEntry 9 21)
        = Some (VUsers [StakingPoolUser 8 700 0, StakingPoolUser 7 300 0])"
    by (simp add: std_sort_def list_users_def user_before_def)
  from 1 2 5 6 7 8 9 10 11 show ?thesis by blast
qed

lemma map_of_fold_apply_op: "map_of (fold apply_op ops s) = fold apply_map ops (map_of s)"
proof (induction ops arbitrary: s)
  case Nil
  then show ?case by simp
next
  case (Cons op ops)
  have "map_of (apply_op op s) = apply_map op (map_of s)"
    by (cases op) (simp_all add: apply_map_def map_of_put map_of_del)
  with Cons show ?case by simp
qed

lemma keys_put: "fst ` set (put k v s) = insert k (fst ` set s)"
  by (induction s) auto

lemma distinct_put: "distinct (map fst s) \<Longrightarrow> distinct (map fst (put k v s))"
  by (induction s) (auto simp: keys_put)

lemma distinct_del: "distinct (map fst s) \<Longrightarrow> distinct (map fst (del k s))"
  by (simp add: del_def distinct_map_filter)

lemma distinct_fold_apply_op: "distinct (map fst s) \<Longrightarrow> distinct (map fst (fold apply_op ops s))"
proof (induction ops arbitrary: s)
  case Nil
  then show ?case by simp
next
  case (Cons op ops)
  have "distinct (map fst (apply_op op s))"
    using Cons.prems by (cases op) (simp_all add: distinct_put distinct_del)
  with Cons.IH show ?case by simp
qed

lemma index_consistent_index:
  assumes "index_consistent records db" and "(AccountEntry prefix outpoint a, v) \<in> set (store db)"
  shows "\<exists>c. db_Read db (CoinEntry outpoint) = Some (VCoin c)
           \<and> (AccountEntry prefix outpoint a, v) \<in> set (records outpoint c)"
proof -
  from assms have "case db_Read db (CoinEntry outpoint) of
                       Some (VCoin c) \<Rightarrow> (AccountEntry prefix outpoint a, v) \<in> set (records outpoint c)
                     | _ \<Rightarrow> False"
    unfolding index_consistent_def list_all_iff by force
  then show ?thesis
    by (simp split: option.splits DBValue.splits)
qed

lemma index_consistent_coin:
  assumes "index_consistent records db" and "(CoinEntry outpoint, VCoin c) \<in> set (store db)"
    and "r \<in> set (records outpoint c)"
  shows "db_Read db (fst r) = Some (snd r)"
proof -
  from assms(1,2) have "list_all (\<lambda>r. db_Read db (fst r) = Some (snd r)) (records outpoint c)"
    unfolding index_consistent_def list_all_iff by force
  with assms(3) show ?thesis by (simp add: list_all_iff)
qed

lemma index_records_keys:
  "r \<in> set (index_records outpoint c) \<Longrightarrow> \<exists>prefix a. fst r = AccountEntry prefix outpoint a"
  by (auto simp: index_records_def split: if_splits Payload.splits)

lemma index_consistent_iff:
  assumes "distinct (map fst (store db))"
  shows "index_consistent index_records db \<longleftrightarrow> inv_map (map_of (store db))"
proof
  assume c: "index_consistent index_records db"
  show "inv_map (map_of (store db))"
    unfolding inv_map_def
  proof (intro allI iffI)
    fix prefix outpoint a v
    assume "map_of (store db) (AccountEntry prefix outpoint a) = Some v"
    then have "(AccountEntry prefix outpoint a, v) \<in> set (store db)" by (rule map_of_SomeD)
    from index_consistent_index [OF c this]
    show "\<exists>c. map_of (store db) (CoinEntry outpoint) = Some (VCoin c)
           \<and> (AccountEntry prefix outpoint a, v) \<in> set (index_records outpoint c)"
      by (simp add: db_Read_def)
  next
    fix prefix outpoint a v
    assume "\<exists>c. map_of (store db) (CoinEntry outpoint) = Some (VCoin c)
           \<and> (AccountEntry prefix outpoint a, v) \<in> set (index_records outpoint c)"
    then obtain c where
      c1: "map_of (store db) (CoinEntry outpoint) = Some (VCoin c)"
      and c2: "(AccountEntry prefix outpoint a, v) \<in> set (index_records outpoint c)"
      by blast
    from c1 have "(CoinEntry outpoint, VCoin c) \<in> set (store db)" by (rule map_of_SomeD)
    from index_consistent_coin [OF c this c2]
    show "map_of (store db) (AccountEntry prefix outpoint a) = Some v"
      by (simp add: db_Read_def)
  qed
next
  assume i: "inv_map (map_of (store db))"
  show "index_consistent index_records db"
    unfolding index_consistent_def list_all_iff
  proof
    fix kv assume kv: "kv \<in> set (store db)"
    have "map_of (store db) (fst kv) = Some (snd kv) \<longleftrightarrow> (fst kv, snd kv) \<in> set (store db)"
      using assms by (rule map_of_eq_Some_iff)
    with kv have m: "map_of (store db) (fst kv) = Some (snd kv)" by simp
    show "case fst kv of
           CoinEntry outpoint \<Rightarrow>
             (case snd kv of
                VCoin c \<Rightarrow> \<forall>r \<in> set (index_records outpoint c). db_Read db (fst r) = Some (snd r)
              | _ \<Rightarrow> True)
         | AccountEntry prefix outpoint a \<Rightarrow>
             (case db_Read db (CoinEntry outpoint) of
                Some (VCoin c) \<Rightarrow> kv \<in> set (index_records outpoint c)
              | _ \<Rightarrow> False)
         | _ \<Rightarrow> True"
    proof (cases "fst kv")
      case (CoinEntry outpoint)
      show ?thesis
      proof (cases "snd kv")
        case (VCoin c)
        have "db_Read db (fst r) = Some (snd r)" if r: "r \<in> set (index_records outpoint c)" for r
        proof -
          from index_records_keys [OF r] obtain prefix a where
            k: "fst r = AccountEntry prefix outpoint a" by blast
          from m CoinEntry VCoin have "map_of (store db) (CoinEntry outpoint) = Some (VCoin c)"
            by simp
          moreover from r k have "(AccountEntry prefix outpoint a, snd r) \<in> set (index_records outpoint c)"
            by (metis prod.collapse)
          ultimately have "map_of (store db) (AccountEntry prefix outpoint a) = Some (snd r)"
            using i unfolding inv_map_def by blast
          with k show ?thesis by (simp add: db_Read_def)
        qed
        with CoinEntry VCoin show ?thesis by simp
      qed (simp_all add: CoinEntry)
    next
      case (AccountEntry prefix outpoint a)
      with m have "map_of (store db) (AccountEntry prefix outpoint a) = Some (snd kv)" by simp
      with i obtain c where "map_of (store db) (CoinEntry outpoint) = Some (VCoin c)"
        "(AccountEntry prefix outpoint a, snd kv) \<in> set (index_records outpoint c)"
        unfolding inv_map_def by blast
      with AccountEntry show ?thesis
        by (cases kv) (simp add: db_Read_def)
    qed simp_all
  qed
qed

lemma fold_apply_map_coin_ops:
  "fold apply_map (coin_ops outpoint c) m =
     (if IsSpent c
      then (\<lambda>k. if k = CoinEntry outpoint \<or> map_of (index_records outpoint c) k \<noteq> None then None else m k)
      else (\<lambda>k. if k = CoinEntry outpoint then Some (VCoin c)
                 else (case map_of (index_records outpoint c) k of Some v \<Rightarrow> Some v | None \<Rightarrow> m k)))"
proof (cases "payload c")
  case NoPayload
  then show ?thesis
    by (simp add: coin_ops_def index_records_def apply_map_def IsBindPlotter_def IsPoint_def
        IsStaking_def fun_eq_iff)
next
  case (BindPlotterPayload x)
  then show ?thesis
    by (simp add: coin_ops_def index_records_def apply_map_def IsBindPlotter_def IsPoint_def
        IsStaking_def fun_eq_iff)
next
  case (PointPayload r x)
  then show ?thesis
    by (simp add: coin_ops_def index_records_def apply_map_def IsBindPlotter_def IsPoint_def
        IsStaking_def fun_eq_iff)
next
  case (StakingPayload r x l)
  then show ?thesis
    by (simp add: coin_ops_def index_records_def apply_map_def IsBindPlotter_def IsPoint_def
        IsStaking_def fun_eq_iff)
qed

lemma distinct_index_records: "distinct (map fst (index_records outpoint c))"
  by (simp add: index_records_def split: Payload.splits)

lemma index_records_same_keys:
  "outAccountID c0 = outAccountID c \<Longrightarrow> payload c0 = payload c
     \<Longrightarrow> map fst (index_records outpoint c0) = map fst (index_records outpoint c)"
  by (simp add: index_records_def split: Payload.splits)

lemma index_records_no_coin: "map_of (index_records outpoint c) (CoinEntry o') = None"
  by (simp add: index_records_def split: Payload.splits)

lemma index_records_other_outpoint:
  "o' \<noteq> outpoint \<Longrightarrow> map_of (index_records outpoint c) (AccountEntry prefix o' a) = None"
  by (simp add: index_records_def split: Payload.splits)

lemma inv_map_coin_ops:
  assumes i: "inv_map m"
    and ag: "\<And>c0. m (CoinEntry outpoint) = Some (VCoin c0)
               \<Longrightarrow> outAccountID c0 = outAccountID c \<and> payload c0 = payload c"
  shows "inv_map (fold apply_map (coin_ops outpoint c) m)"
proof -
  let ?recs = "index_records outpoint c"
  let ?m' = "fold apply_map (coin_ops outpoint c) m"
  have rec_iff: "map_of ?recs k = Some v \<longleftrightarrow> (k, v) \<in> set ?recs" for k v
    using distinct_index_records by (rule map_of_eq_Some_iff)
  have old_keys: "map_of ?recs (AccountEntry prefix outpoint a) \<noteq> None"
    if "m (AccountEntry prefix outpoint a) = Some v" for prefix a v
  proof -
    from i that obtain c0 where
      c0: "m (CoinEntry outpoint) = Some (VCoin c0)"
          "(AccountEntry prefix outpoint a, v) \<in> set (index_records outpoint c0)"
      unfolding inv_map_def by blast
    from ag [OF c0(1)] have "map fst (index_records outpoint c0) = map fst ?recs"
      by (intro index_records_same_keys) simp_all
    then have "fst ` set (index_records outpoint c0) = fst ` set ?recs"
      by (metis set_map)
    moreover from c0(2) have "AccountEntry prefix outpoint a \<in> fst ` set (index_records outpoint c0)"
      by (rule rev_image_eqI) simp
    ultimately have "AccountEntry prefix outpoint a \<in> fst ` set ?recs" by simp
    then show ?thesis by (simp add: map_of_eq_None_iff)
  qed
  have other_coin: "?m' (CoinEntry o') = m (CoinEntry o')" if "o' \<noteq> outpoint" for o'
    using that by (simp add: fold_apply_map_coin_ops index_records_no_coin)
  have other_index: "?m' (AccountEntry prefix o' a) = m (AccountEntry prefix o' a)"
    if "o' \<noteq> outpoint" for prefix o' a
    using that by (simp add: fold_apply_map_coin_ops index_records_other_outpoint)
  show ?thesis
    unfolding inv_map_def
  proof (intro allI)
    fix prefix o' a v
    show "?m' (AccountEntry prefix o' a) = Some v \<longleftrightarrow>
        (\<exists>c1. ?m' (CoinEntry o') = Some (VCoin c1)
           \<and> (AccountEntry prefix o' a, v) \<in> set (index_records o' c1))"
    proof (cases "o' = outpoint")
      case False
      have "m (AccountEntry prefix o' a) = Some v \<longleftrightarrow>
        (\<exists>c1. m (CoinEntry o') = Some (VCoin c1)
           \<and> (AccountEntry prefix o' a, v) \<in> set (index_records o' c1))"
        using i unfolding inv_map_def by blast
      then show ?thesis
        by (simp only: other_coin [OF False] other_index [OF False])
    next
      case True
      show ?thesis
      proof (cases "IsSpent c")
        case spent: True
        have "?m' (AccountEntry prefix outpoint a) \<noteq> Some v"
        proof
          assume s: "?m' (AccountEntry prefix outpoint a) = Some v"
          with spent have "m (AccountEntry prefix outpoint a) = Some v"
            "map_of ?recs (AccountEntry prefix outpoint a) = None"
            by (simp_all add: fold_apply_map_coin_ops split: if_splits)
          with old_keys show False by blast
        qed
        moreover have "?m' (CoinEntry outpoint) = None"
          using spent by (simp add: fold_apply_map_coin_ops)
        ultimately show ?thesis using True by simp
      next
        case live: False
        have coin': "?m' (CoinEntry outpoint) = Some (VCoin c)"
          using live by (simp add: fold_apply_map_coin_ops)
        have "?m' (AccountEntry prefix outpoint a) = Some v
                \<longleftrightarrow> (AccountEntry prefix outpoint a, v) \<in> set ?recs"
        proof (cases "map_of ?recs (AccountEntry prefix outpoint a)")
          case None
          with old_keys have "m (AccountEntry prefix outpoint a) \<noteq> Some v" by blast
          moreover from None rec_iff have "(AccountEntry prefix outpoint a, v) \<notin> set ?recs"
            by (metis option.distinct(1))
          ultimately show ?thesis
            using live None by (simp add: fold_apply_map_coin_ops)
        next
          case (Some w)
          have "?m' (AccountEntry prefix outpoint a) = Some w"
            using live Some by (simp add: fold_apply_map_coin_ops)
          moreover have "(AccountEntry prefix outpoint a, v) \<in> set ?recs \<longleftrightarrow> w = v"
            using rec_iff [of "AccountEntry prefix outpoint a" v] Some by auto
          ultimately show ?thesis by auto
        qed
        with coin' True show ?thesis by simp
      qed
    qed
  qed
qed

lemma coin_ops_other_coin:
  "o' \<noteq> outpoint \<Longrightarrow> fold apply_map (coin_ops outpoint c) m (CoinEntry o') = m (CoinEntry o')"
  by (simp add: fold_apply_map_coin_ops index_records_no_coin)

lemma inv_map_delta_ops:
  assumes "inv_map m" and "distinct (map fst mapCoins)"
    and "\<forall>it \<in> set mapCoins. DIRTY (snd it) \<longrightarrow>
           (\<forall>c0. m (CoinEntry (fst it)) = Some (VCoin c0) \<longrightarrow>
              outAccountID c0 = outAccountID (coin (snd it)) \<and> payload c0 = payload (coin (snd it)))"
  shows "inv_map (fold apply_map (delta_ops mapCoins) m)"
  using assms
proof (induction mapCoins arbitrary: m)
  case Nil
  then show ?case by (simp add: delta_ops_def)
next
  case (Cons it rest)
  show ?case
  proof (cases "DIRTY (snd it)")
    case False
    then have "delta_ops (it # rest) = delta_ops rest" by (simp add: delta_ops_Cons)
    moreover have "inv_map (fold apply_map (delta_ops rest) m)"
      using Cons.IH [of m] Cons.prems by simp
    ultimately show ?thesis by simp
  next
    case True
    let ?stepped = "fold apply_map (coin_ops (fst it) (coin (snd it))) m"
    have i1: "inv_map ?stepped"
      using Cons.prems(1,3) True by (intro inv_map_coin_ops) auto
    have other: "?stepped (CoinEntry (fst it')) = m (CoinEntry (fst it'))" if "it' \<in> set rest" for it'
    proof -
      have "fst it \<notin> fst ` set rest" using Cons.prems(2) by simp
      moreover have "fst it' \<in> fst ` set rest" using that by (rule imageI)
      ultimately have "fst it' \<noteq> fst it" by metis
      then show ?thesis by (rule coin_ops_other_coin)
    qed
    have "inv_map (fold apply_map (delta_ops rest) ?stepped)"
    proof (rule Cons.IH [OF i1])
      show "distinct (map fst rest)" using Cons.prems(2) by simp
      show "\<forall>it \<in> set rest. DIRTY (snd it) \<longrightarrow>
           (\<forall>c0. ?stepped (CoinEntry (fst it)) = Some (VCoin c0) \<longrightarrow>
              outAccountID c0 = outAccountID (coin (snd it)) \<and> payload c0 = payload (coin (snd it)))"
        using Cons.prems(3) other by simp
    qed
    then show ?thesis using True by (simp add: delta_ops_Cons)
  qed
qed

lemma inv_map_meta_update:
  "k = DB_BEST_BLOCK \<or> k = DB_HEAD_BLOCKS \<Longrightarrow> inv_map (m(k := x)) = inv_map m"
  by (auto simp: inv_map_def)

lemma inv_map_marker_ops: "inv_map (fold apply_map (marker_ops h t) m) = inv_map m"
  by (simp add: marker_ops_def apply_map_def inv_map_meta_update)

lemma inv_map_final_ops: "inv_map (fold apply_map (final_ops h) m) = inv_map m"
  by (simp add: final_ops_def apply_map_def inv_map_meta_update)

lemma marker_ops_coin: "fold apply_map (marker_ops h t) m (CoinEntry outpoint) = m (CoinEntry outpoint)"
  by (simp add: marker_ops_def apply_map_def)

lemma BatchWrite_no_snapshot:
  assumes "0 < nSaturnEpockBlocks (consensus env)"
    and "LookupBlockIndex env hashBlock = b # prev"
    and "\<not> epoch_boundary (consensus env) (blockHeight b)"
    and "hashBlock \<noteq> 0"
    and "old_tip_of db hashBlock = Inr old_tip"
  shows "\<exists>db'. BatchWrite env mapCoins hashBlock db = Inr db'
           \<and> store db' = fold apply_op (marker_ops hashBlock old_tip @ delta_ops mapCoins @ final_ops hashBlock)
                            (store db)"
proof -
  obtain batch db1 where l: "BatchWrite_loop env mapCoins (marker_ops hashBlock old_tip) db = (batch, db1)"
    by (metis surj_pair)
  from BatchWrite_loop_chunks [OF l] obtain chunks where
    c: "concat chunks @ batch = marker_ops hashBlock old_tip @ delta_ops mapCoins"
       "store db1 = fold apply_op (concat chunks) (store db)"
    by blast
  have t: "TrySnapshotStakingPoolStatus env (LookupBlockIndex env hashBlock) db1 = Inr db1"
    using TrySnapshot_not_due [OF assms(1,3)] by (simp add: assms(2))
  have "BatchWrite env mapCoins hashBlock db = Inr (WriteBatch ByBatchWrite (batch @ final_ops hashBlock) db1)"
    using BatchWrite_unfold [OF assms(4,5)] BatchWrite_from_tip_unfold [OF l] t by simp
  moreover have "store (WriteBatch ByBatchWrite (batch @ final_ops hashBlock) db1)
      = fold apply_op ((concat chunks @ batch) @ final_ops hashBlock) (store db)"
    by (simp add: c(2))
  ultimately show ?thesis by (simp add: c(1))
qed

text \<open>
  C1, as amended. A commit that takes no staking snapshot keeps the index consistent,
  provided every dirty entry of the delta carries the owner and the payload of the coin
  the store holds at its outpoint. Consistent means: a live coin with an owner has
  exactly its account record and the records of its payload variant; a live coin without
  an owner, and a coin that is spent or absent, has no index record. The other
  hypotheses say that the commit does not abort (a block hash that is not null, a known
  block, the assertion on the head-blocks marker) and that the store and the delta hold
  one record per key. What the snapshot of a commit at an epoch boundary does to the
  invariant is left out of the statement.
\<close>

theorem BatchWrite_keeps_index_consistent:
  assumes "0 < nSaturnEpockBlocks (consensus env)"
    and "LookupBlockIndex env hashBlock = b # prev"
    and "\<not> epoch_boundary (consensus env) (blockHeight b)"
    and "hashBlock \<noteq> 0"
    and "old_tip_of db hashBlock = Inr old_tip"
    and "distinct (map fst (store db))"
    and "distinct (map fst mapCoins)"
    and "delta_agrees db mapCoins"
    and "index_consistent index_records db"
  shows "\<exists>db'. BatchWrite env mapCoins hashBlock db = Inr db'
           \<and> index_consistent index_records db' \<and> distinct (map fst (store db'))"
proof -
  let ?ops = "marker_ops hashBlock old_tip @ delta_ops mapCoins @ final_ops hashBlock"
  from BatchWrite_no_snapshot [OF assms(1-5)] obtain db' where
    r: "BatchWrite env mapCoins hashBlock db = Inr db'"
       "store db' = fold apply_op ?ops (store db)"
    by blast
  have d: "distinct (map fst (store db'))"
    using assms(6) by (simp only: r(2)) (rule distinct_fold_apply_op)
  let ?m = "map_of (store db)"
  let ?marked = "fold apply_map (marker_ops hashBlock old_tip) ?m"
  have i: "inv_map ?m"
    using assms(6,9) by (simp add: index_consistent_iff)
  then have i0: "inv_map ?marked" by (simp add: inv_map_marker_ops)
  have ag: "\<forall>it \<in> set mapCoins. DIRTY (snd it) \<longrightarrow>
           (\<forall>c0. ?marked (CoinEntry (fst it)) = Some (VCoin c0) \<longrightarrow>
              outAccountID c0 = outAccountID (coin (snd it)) \<and> payload c0 = payload (coin (snd it)))"
  proof (intro ballI impI allI)
    fix it c0
    assume a: "it \<in> set mapCoins" "DIRTY (snd it)" "?marked (CoinEntry (fst it)) = Some (VCoin c0)"
    from a(3) have "db_Read db (CoinEntry (fst it)) = Some (VCoin c0)"
      by (simp add: marker_ops_coin db_Read_def)
    with assms(8) a(1,2) show "outAccountID c0 = outAccountID (coin (snd it)) \<and> payload c0 = payload (coin (snd it))"
      by (auto simp: delta_agrees_def list_all_iff)
  qed
  have "inv_map (fold apply_map (delta_ops mapCoins) ?marked)"
    using i0 assms(7) ag by (rule inv_map_delta_ops)
  then have "inv_map (fold apply_map (final_ops hashBlock) (fold apply_map (delta_ops mapCoins) ?marked))"
    by (simp only: inv_map_final_ops)
  then have "inv_map (map_of (store db'))"
    by (simp add: r(2) map_of_fold_apply_op)
  then have "index_consistent index_records db'"
    using d by (simp add: index_consistent_iff)
  with r(1) d show ?thesis by blast
qed

theorem BatchWrite_keeps_index_consistent_witness:
  "0 < nSaturnEpockBlocks (consensus env0)
   \<and> LookupBlockIndex env0 9 = [block0 9 7 0]
   \<and> \<not> epoch_boundary (consensus env0) (blockHeight (block0 9 7 0))
   \<and> (9::nat) \<noteq> 0
   \<and> old_tip_of index_db0 9 = Inr 0
   \<and> distinct (map fst (store index_db0))
   \<and> distinct (map fst delta1)
   \<and> delta_agrees index_db0 delta1
   \<and> index_consistent index_records index_db0
   \<and> (\<exists>db'. BatchWrite env0 delta1 9 index_db0 = Inr db'
           \<and> index_consistent index_records db' \<and> distinct (map fst (store db')))"
proof -
  have 1: "0 < nSaturnEpockBlocks (consensus env0)" by (simp add: env0_def params0_def)
  have 2: "LookupBlockIndex env0 9 = [block0 9 7 0]" by (simp add: env0_def)
  have 3: "\<not> epoch_boundary (consensus env0) (blockHeight (block0 9 7 0))"
    by (simp add: epoch_boundary_def env0_def params0_def block0_def)
  have 4: "(9::nat) \<noteq> 0" by simp
  have 5: "old_tip_of index_db0 9 = Inr 0"
    by (simp add: old_tip_of_def GetBestBlock_def GetHeadBlocks_def db_Read_def index_db0_def db0_def)
  have 6: "distinct (map fst (store index_db0))" by (simp add: index_db0_def db0_def)
  have 7: "distinct (map fst delta1)" by (simp add: delta1_def)
  have 8: "delta_agrees index_db0 delta1"
    by (simp add: delta_agrees_def delta1_def index_db0_def db0_def db_Read_def dirty0_def coin0_def)
  have 9: "index_consistent index_records index_db0"
    by (simp add: index_consistent_def index_records_def index_db0_def db0_def db_Read_def coin0_def)
  from BatchWrite_keeps_index_consistent [OF 1 2 3 4 5 6 7 8 9] 1 2 3 4 5 6 7 8 9
  show ?thesis by blast
qed

lemma unowned_commit:
  "BatchWrite env0 unowned_delta 9 (db0 []) = Inr unowned_db"
proof -
  have t: "old_tip_of (db0 []) 9 = Inr 0"
    by (simp add: old_tip_of_def GetBestBlock_def GetHeadBlocks_def db_Read_def db0_def)
  have l: "BatchWrite_loop env0 unowned_delta (marker_ops 9 0) (db0 [])
      = ([OpErase DB_BEST_BLOCK, OpWrite DB_HEAD_BLOCKS (VHashes [9, 0]),
          OpWrite (CoinEntry (11, 0)) (VCoin (coin0 5 0 (PointPayload 8 5) False))], db0 [])"
    by (simp add: unowned_delta_def marker_ops_def coin_ops_def dirty0_def coin0_def env0_def)
  have s: "TrySnapshotStakingPoolStatus env0 (LookupBlockIndex env0 9) (db0 []) = Inr (db0 [])"
    by (simp add: TrySnapshotStakingPoolStatus_def env0_def params0_def block0_def)
  have w: "WriteBatch ByBatchWrite
              (OpErase DB_BEST_BLOCK # OpWrite DB_HEAD_BLOCKS (VHashes [9, 0]) #
                OpWrite (CoinEntry (11, 0)) (VCoin (coin0 5 0 (PointPayload 8 5) False)) # final_ops 9)
              (db0 []) = unowned_db"
    by (simp add: WriteBatch_def final_ops_def unowned_db_def db0_def del_def)
  show ?thesis
    by (simp add: BatchWrite_def t BatchWrite_from_tip_def l s w)
qed

lemma load_prev_epoch_unchanged:
  assumes "nat (nSaturnEpockBlocks (consensus env)) < length chain"
    and "blockHeight (hd chain) < nSaturnActiveHeight (consensus env) + nSaturnEpockBlocks (consensus env)
         \<or> (\<forall>ps. db_Read db (StakingPoolEntry (GetBlockHash (chain ! nat (nSaturnEpockBlocks (consensus env)))))
                    = Some (VPools ps) \<longrightarrow> ps = [])"
  shows "load_prev_epoch env db chain epochPoolUsers = Inr epochPoolUsers"
proof (cases "blockHeight (hd chain) < nSaturnActiveHeight (consensus env) + nSaturnEpockBlocks (consensus env)")
  case True
  then show ?thesis by (simp add: load_prev_epoch_def)
next
  case False
  let ?n = "nat (nSaturnEpockBlocks (consensus env))"
  from assms(1) have "?n \<le> length chain" by simp
  from sum_rewards_succeeds [OF this] obtain st' where
    s: "sum_rewards env ?n chain [] = Inr (st', drop ?n chain)" by blast
  have d: "drop ?n chain = chain ! ?n # drop (Suc ?n) chain"
    using assms(1) by (simp add: Cons_nth_drop_Suc)
  from assms(2) False
  have e: "\<forall>ps. db_Read db (StakingPoolEntry (GetBlockHash (chain ! ?n))) = Some (VPools ps) \<longrightarrow> ps = []"
    by simp
  show ?thesis
    unfolding load_prev_epoch_def using e
    by (simp add: s d Let_def split: option.splits DBValue.splits)
qed

text \<open>
  C5, as amended. Where the previous epoch has a pool list that is present and not
  empty (lines 1031 and 1043), a user of the new epoch with an entry in the pool's list
  of the previous epoch gets that entry's withdrawable amount carried forward exactly
  when the amount is below the minimum withdrawable amount (no withdrawal coin was
  written for it) or the withdrawal coin at the outpoint made from the previous epoch's
  hash, the pool and the user is still in the primary store; otherwise the amount the
  status holds (zero for a fresh status) stays. The share of the reward is added in both
  cases. Where there is no previous epoch, or its pool list is absent or empty, nothing
  is carried forward: the statuses stay as they are.
\<close>

theorem withdrawable_carried_forward:
  assumes "nat (nSaturnEpockBlocks (consensus env)) < length chain"
    and "(pool, poolUsers) \<in> set epochPoolUsers"
    and "db_Read db (StakingPoolUsersEntry (GetBlockHash (chain ! nat (nSaturnEpockBlocks (consensus env)))) pool)
           = Some (VUsers pre)"
    and "distinct (map accountID pre)"
    and "e \<in> set pre"
    and "map_of poolUsers (accountID e) = Some (CUserStatus s w0)"
  shows "(blockHeight (hd chain) \<ge> nSaturnActiveHeight (consensus env) + nSaturnEpockBlocks (consensus env)
          \<and> db_Read db (StakingPoolEntry (GetBlockHash (chain ! nat (nSaturnEpockBlocks (consensus env)))))
               = Some (VPools prevEpochPools)
          \<and> prevEpochPools \<noteq> [] \<longrightarrow>
          (\<exists>result poolUsers'.
             load_prev_epoch env db chain epochPoolUsers = Inr result
             \<and> (pool, poolUsers') \<in> set result
             \<and> map_of poolUsers' (accountID e) =
                 Some (CUserStatus s
                         ((if carried_forward env db
                                (GetBlockHash (chain ! nat (nSaturnEpockBlocks (consensus env)))) pool e
                           then withdrawableAmount e else w0)
                          + reward_share (epoch_reward env chain pool) (stakeAmount e)
                              (sum_list (map poolStakeAmount prevEpochPools))))))
       \<and> (blockHeight (hd chain) < nSaturnActiveHeight (consensus env) + nSaturnEpockBlocks (consensus env)
          \<or> (\<forall>ps. db_Read db (StakingPoolEntry (GetBlockHash (chain ! nat (nSaturnEpockBlocks (consensus env)))))
                     = Some (VPools ps) \<longrightarrow> ps = []) \<longrightarrow>
          load_prev_epoch env db chain epochPoolUsers = Inr epochPoolUsers)"
proof (intro conjI impI)
  let ?ph = "GetBlockHash (chain ! nat (nSaturnEpockBlocks (consensus env)))"
  let ?T = "sum_list (map poolStakeAmount prevEpochPools)"
  assume g: "blockHeight (hd chain) \<ge> nSaturnActiveHeight (consensus env) + nSaturnEpockBlocks (consensus env)
          \<and> db_Read db (StakingPoolEntry ?ph) = Some (VPools prevEpochPools)
          \<and> prevEpochPools \<noteq> []"
  then have g1: "blockHeight (hd chain) \<ge> nSaturnActiveHeight (consensus env) + nSaturnEpockBlocks (consensus env)"
    and g2: "db_Read db (StakingPoolEntry ?ph) = Some (VPools prevEpochPools)"
    and g3: "prevEpochPools \<noteq> []" by simp_all
  from load_prev_epoch_result [OF g1 assms(1) g2 g3, of epochPoolUsers] obtain st where
    l: "load_prev_epoch env db chain epochPoolUsers = Inr (map (load_prev_pool env db ?ph st ?T) epochPoolUsers)"
       "\<forall>p. rewardAmount (get_or (CPoolStatus 0 0) st p) = epoch_reward env chain p"
    by blast
  let ?r = "load_prev_pool env db ?ph st ?T (pool, poolUsers)"
  let ?carried = "if carried_forward env db ?ph pool e then withdrawableAmount e else w0"
  have f: "fst ?r = pool"
    by (simp add: load_prev_pool_def Let_def split: option.splits DBValue.splits)
  have "?r \<in> set (map (load_prev_pool env db ?ph st ?T) epochPoolUsers)"
    using assms(2) by auto
  then have m: "(pool, snd ?r) \<in> set (map (load_prev_pool env db ?ph st ?T) epochPoolUsers)"
    using f by (metis prod.collapse)
  have u: "map_of (snd ?r) (accountID e) =
               Some (CUserStatus s (?carried + reward_share (epoch_reward env chain pool) (stakeAmount e) ?T))"
    using fold_load_prev_user_hit [OF assms(4,5,6)] assms(3) l(2)
    by (simp add: load_prev_pool_def Let_def)
  from l(1) m u
  show "\<exists>result poolUsers'.
             load_prev_epoch env db chain epochPoolUsers = Inr result
             \<and> (pool, poolUsers') \<in> set result
             \<and> map_of poolUsers' (accountID e) =
                 Some (CUserStatus s (?carried + reward_share (epoch_reward env chain pool) (stakeAmount e) ?T))"
    by blast
next
  assume "blockHeight (hd chain) < nSaturnActiveHeight (consensus env) + nSaturnEpockBlocks (consensus env)
          \<or> (\<forall>ps. db_Read db (StakingPoolEntry (GetBlockHash (chain ! nat (nSaturnEpockBlocks (consensus env)))))
                     = Some (VPools ps) \<longrightarrow> ps = [])"
  with assms(1) show "load_prev_epoch env db chain epochPoolUsers = Inr epochPoolUsers"
    by (rule load_prev_epoch_unchanged)
qed

lemma prev_hash0: "GetBlockHash (chain0 ! nat (nSaturnEpockBlocks (consensus env0))) = 3"
  by (simp add: chain0_nth block0_def)

lemma reward_share0:
  "reward_share (epoch_reward env0 chain0 21) 100 (sum_list (map poolStakeAmount prev_pools0)) = 10"
  by (simp add: epoch_reward0 reward_share_def prev_pools0_def CalcStakePoolUserReward_def
        signed_divide_int_def)

theorem withdrawable_carried_forward_witness:
  "nat (nSaturnEpockBlocks (consensus env0)) < length chain0
   \<and> (21, [(7, CUserStatus 200 0)]) \<in> set [(21::nat, [(7::nat, CUserStatus 200 0)])]
   \<and> distinct (map accountID [StakingPoolUser 7 100 60])
   \<and> StakingPoolUser 7 100 60 \<in> set [StakingPoolUser 7 100 60]
   \<and> map_of [(7, CUserStatus 200 0)] (accountID (StakingPoolUser 7 100 60)) = Some (CUserStatus 200 0)
   \<and> blockHeight (hd chain0) \<ge> nSaturnActiveHeight (consensus env0) + nSaturnEpockBlocks (consensus env0)
   \<and> prev_pools0 \<noteq> []
   \<and> db_Read carry_db0 (StakingPoolUsersEntry 3 21) = Some (VUsers [StakingPoolUser 7 100 60])
   \<and> db_Read carry_db0 (StakingPoolEntry 3) = Some (VPools prev_pools0)
   \<and> carried_forward env0 carry_db0 3 21 (StakingPoolUser 7 100 60)
   \<and> (\<exists>result poolUsers'.
         load_prev_epoch env0 carry_db0 chain0 [(21, [(7, CUserStatus 200 0)])] = Inr result
         \<and> (21, poolUsers') \<in> set result
         \<and> map_of poolUsers' 7 = Some (CUserStatus 200 70))
   \<and> db_Read spent_db0 (StakingPoolUsersEntry 3 21) = Some (VUsers [StakingPoolUser 7 100 60])
   \<and> db_Read spent_db0 (StakingPoolEntry 3) = Some (VPools prev_pools0)
   \<and> \<not> carried_forward env0 spent_db0 3 21 (StakingPoolUser 7 100 60)
   \<and> (\<exists>result poolUsers'.
         load_prev_epoch env0 spent_db0 chain0 [(21, [(7, CUserStatus 200 0)])] = Inr result
         \<and> (21, poolUsers') \<in> set result
         \<and> map_of poolUsers' 7 = Some (CUserStatus 200 10))
   \<and> db_Read nolist_db0 (StakingPoolUsersEntry 3 21) = Some (VUsers [StakingPoolUser 7 100 60])
   \<and> db_Read nolist_db0 (StakingPoolEntry 3) = None
   \<and> load_prev_epoch env0 nolist_db0 chain0 [(21, [(7, CUserStatus 200 0)])]
       = Inr [(21, [(7, CUserStatus 200 0)])]"
proof -
  have 1: "nat (nSaturnEpockBlocks (consensus env0)) < length chain0"
    by (simp add: chain0_def env0_def params0_def)
  have 2: "(21, [(7, CUserStatus 200 0)]) \<in> set [(21::nat, [(7::nat, CUserStatus 200 0)])]" by simp
  have 4: "distinct (map accountID [StakingPoolUser 7 100 60])" by simp
  have 5: "StakingPoolUser 7 100 60 \<in> set [StakingPoolUser 7 100 60]" by simp
  have 6: "map_of [(7, CUserStatus 200 0)] (accountID (StakingPoolUser 7 100 60)) = Some (CUserStatus 200 0)"
    by simp
  have g1: "blockHeight (hd chain0) \<ge> nSaturnActiveHeight (consensus env0) + nSaturnEpockBlocks (consensus env0)"
    by (simp add: chain0_def env0_def params0_def block0_def)
  have g3: "prev_pools0 \<noteq> []" by (simp add: prev_pools0_def)
  have c3: "db_Read carry_db0 (StakingPoolUsersEntry 3 21) = Some (VUsers [StakingPoolUser 7 100 60])"
    by (simp add: carry_db0_def db0_def db_Read_def)
  have c2: "db_Read carry_db0 (StakingPoolEntry 3) = Some (VPools prev_pools0)"
    by (simp add: carry_db0_def db0_def db_Read_def)
  have cc: "carried_forward env0 carry_db0 3 21 (StakingPoolUser 7 100 60)"
    by (simp add: carried_forward_def env0_def db_Exists_def carry_db0_def db0_def)
  have s3: "db_Read spent_db0 (StakingPoolUsersEntry 3 21) = Some (VUsers [StakingPoolUser 7 100 60])"
    by (simp add: spent_db0_def db0_def db_Read_def)
  have s2: "db_Read spent_db0 (StakingPoolEntry 3) = Some (VPools prev_pools0)"
    by (simp add: spent_db0_def db0_def db_Read_def)
  have sc: "\<not> carried_forward env0 spent_db0 3 21 (StakingPoolUser 7 100 60)"
    by (simp add: carried_forward_def env0_def db_Exists_def spent_db0_def db0_def)
  have n3: "db_Read nolist_db0 (StakingPoolUsersEntry 3 21) = Some (VUsers [StakingPoolUser 7 100 60])"
    by (simp add: nolist_db0_def db0_def db_Read_def)
  have n2: "db_Read nolist_db0 (StakingPoolEntry 3) = None"
    by (simp add: nolist_db0_def db0_def db_Read_def)
  note c = withdrawable_carried_forward [of env0 chain0 21 "[(7, CUserStatus 200 0)]"
             "[(21, [(7, CUserStatus 200 0)])]" carry_db0 "[StakingPoolUser 7 100 60]"
             "StakingPoolUser 7 100 60" 200 0 prev_pools0,
             unfolded prev_hash0, OF 1 2 c3 4 5 6, THEN conjunct1, rule_format, OF conjI [OF g1 conjI [OF c2 g3]]]
  note s = withdrawable_carried_forward [of env0 chain0 21 "[(7, CUserStatus 200 0)]"
             "[(21, [(7, CUserStatus 200 0)])]" spent_db0 "[StakingPoolUser 7 100 60]"
             "StakingPoolUser 7 100 60" 200 0 prev_pools0,
             unfolded prev_hash0, OF 1 2 s3 4 5 6, THEN conjunct1, rule_format, OF conjI [OF g1 conjI [OF s2 g3]]]
  have n0: "blockHeight (hd chain0) < nSaturnActiveHeight (consensus env0) + nSaturnEpockBlocks (consensus env0)
            \<or> (\<forall>ps. db_Read nolist_db0 (StakingPoolEntry 3) = Some (VPools ps) \<longrightarrow> ps = [])"
    by (simp add: n2)
  note n = withdrawable_carried_forward [of env0 chain0 21 "[(7, CUserStatus 200 0)]"
             "[(21, [(7, CUserStatus 200 0)])]" nolist_db0 "[StakingPoolUser 7 100 60]"
             "StakingPoolUser 7 100 60" 200 0 prev_pools0,
             unfolded prev_hash0, OF 1 2 n3 4 5 6, THEN conjunct2, rule_format, OF n0]
  have rc: "\<exists>result poolUsers'.
         load_prev_epoch env0 carry_db0 chain0 [(21, [(7, CUserStatus 200 0)])] = Inr result
         \<and> (21, poolUsers') \<in> set result
         \<and> map_of poolUsers' 7 = Some (CUserStatus 200 70)"
    using c cc by (simp add: reward_share0)
  have rs: "\<exists>result poolUsers'.
         load_prev_epoch env0 spent_db0 chain0 [(21, [(7, CUserStatus 200 0)])] = Inr result
         \<and> (21, poolUsers') \<in> set result
         \<and> map_of poolUsers' 7 = Some (CUserStatus 200 10)"
    using s sc by (simp add: reward_share0)
  from 1 2 4 5 6 g1 g3 c3 c2 cc rc s3 s2 sc rs n3 n2 n show ?thesis by (simp only: simp_thms)
qed

text \<open>
  C5, as stated, fails: the 20 owed to user 9 of pool 22, below the minimum of 50, are
  carried forward although no withdrawal coin is in the store (pool 22 earned no reward in
  the epoch, so the 20 of the new status are the amount carried).
\<close>

theorem withdrawable_carried_without_coin:
  "\<not> db_Exists carry_db0 (CoinEntry (CreateStakePendingCoinOutPoint env0 3 22 9))
   \<and> db_Read carry_db0 (StakingPoolUsersEntry 3 22) = Some (VUsers [StakingPoolUser 9 300 20])
   \<and> epoch_reward env0 chain0 22 = 0
   \<and> load_prev_epoch env0 carry_db0 chain0 [(22, [(9, CUserStatus 50 0)])]
       = Inr [(22, [(9, CUserStatus 50 20)])]"
proof -
  have r: "sum_rewards env0 (nat (nSaturnEpockBlocks (consensus env0))) chain0 []
             = Inr ([(21, CPoolStatus 0 40)], [block0 3 110 21])"
    by (simp add: chain0_def env0_def params0_def block0_def eval_nat_numeral)
  have a: "\<not> db_Exists carry_db0 (CoinEntry (CreateStakePendingCoinOutPoint env0 3 22 9))"
    by (simp add: db_Exists_def carry_db0_def db0_def env0_def)
  have b: "db_Read carry_db0 (StakingPoolUsersEntry 3 22) = Some (VUsers [StakingPoolUser 9 300 20])"
    by (simp add: carry_db0_def db0_def db_Read_def)
  have c: "epoch_reward env0 chain0 22 = 0"
    by (simp add: epoch_reward_def chain0_def env0_def params0_def block0_def sum_list_replicate)
  have d: "load_prev_epoch env0 carry_db0 chain0 [(22, [(9, CUserStatus 50 0)])]
       = Inr [(22, [(9, CUserStatus 50 20)])]"
    unfolding load_prev_epoch_def
    apply (simp add: r)
    apply (simp add: chain0_def env0_def params0_def block0_def carry_db0_def prev_pools0_def db0_def
        db_Read_def db_Exists_def load_prev_pool_def load_prev_user_def get_or_def Let_def)
    done
  from a b c d show ?thesis by (simp only: simp_thms)
qed

lemma first_failure_append:
  "first_failure (xs @ ys) = (case first_failure xs of Some e \<Rightarrow> Some e | None \<Rightarrow> first_failure ys)"
  by (induction xs) (auto split: sum.splits)

lemma first_failure_negative: "list_ex negative_result rs \<Longrightarrow> first_failure rs \<noteq> None"
  by (induction rs) (auto simp: negative_result_def split: sum.splits)

lemma first_failure_assertion:
  "list_all (\<lambda>r. \<not> isl r) rs \<Longrightarrow> list_ex negative_result rs \<Longrightarrow> first_failure rs = Some AssertionFailed"
  by (induction rs) (auto simp: negative_result_def split: sum.splits)

lemma checked_failure: "first_failure [r] = (case checked r of Inl e \<Rightarrow> Some e | Inr v \<Rightarrow> None)"
  by (auto simp: checked_def assert_nonneg_def split: sum.splits)

lemma balance_pair_failure:
  "first_failure (pair_blocks db sp rp isKind account m bal)
     = (case balance_pair db sp rp isKind account m bal of Inl e \<Rightarrow> Some e | Inr out \<Rightarrow> None)"
proof (cases bal)
  case None
  then show ?thesis by (simp add: pair_blocks_def balance_pair_def)
next
  case (Some b)
  obtain b0 b1 where b: "b = (b0, b1)" by (cases b)
  note s = checked_failure [of "raw_send db sp isKind account m"]
  note r = checked_failure [of "raw_receive db rp isKind account m"]
  show ?thesis
    using s r
    by (cases "checked (raw_send db sp isKind account m)";
        cases "checked (raw_receive db rp isKind account m)")
       (simp_all add: Some b pair_blocks_def balance_pair_def first_failure_append)
qed

lemma GetAccountBalance_failure:
  "first_failure (computed_blocks env db account wantBind balancePoint balanceStaking m)
     = (case GetAccountBalance env db account wantBind balancePoint balanceStaking m of
          Inl e \<Rightarrow> Some e | Inr out \<Rightarrow> None)"
proof -
  let ?P = "balance_pair db DB_COIN_POINT_SEND DB_COIN_POINT_RECEIVE IsPoint account m balancePoint"
  let ?S = "balance_pair db DB_COIN_STAKING_SEND DB_COIN_STAKING_RECEIVE IsStaking account m balanceStaking"
  note p = balance_pair_failure [of db DB_COIN_POINT_SEND DB_COIN_POINT_RECEIVE IsPoint account m balancePoint]
  note s = balance_pair_failure [of db DB_COIN_STAKING_SEND DB_COIN_STAKING_RECEIVE IsStaking account m
             balanceStaking]
  show ?thesis
    unfolding computed_blocks_def GetAccountBalance_def first_failure_append p s
    by (cases "raw_available db account m"; cases wantBind; cases "raw_bindplotter env db account m";
        cases ?P; cases ?S)
       (simp_all add: checked_def assert_nonneg_def)
qed

text \<open>
  C9, as amended. Every amount GetAccountBalance computes and returns is the result
  of its block and not negative: the available balance, the bind plotter balance when
  asked for, and each element of the point and staking arrays that did not hold the
  skip value \<open>-1\<close> on entry (such an element is not computed and stays \<open>-1\<close>). The
  function fails exactly when one of the blocks it computes fails, with the failure of
  the first such block: a read error, or the assertion on a negative result. So a
  negative result of any of the six blocks is neither returned nor clamped, and where no
  block has a read error the failure is the assertion's.
\<close>

theorem GetAccountBalance_nonnegative:
  "(GetAccountBalance env db account wantBind balancePoint balanceStaking mapModifiedCoins
      = Inr (availableBalance, bind, point, staking) \<longrightarrow>
        raw_available db account mapModifiedCoins = Inr availableBalance \<and> 0 \<le> availableBalance
        \<and> (if wantBind
            then \<exists>v. bind = Some v \<and> raw_bindplotter env db account mapModifiedCoins = Inr v \<and> 0 \<le> v
            else bind = None)
        \<and> (case balancePoint of
              None \<Rightarrow> point = None
            | Some (b0, b1) \<Rightarrow>
                \<exists>s r. point = Some (s, r)
                  \<and> element_ok b0 (raw_send db DB_COIN_POINT_SEND IsPoint account mapModifiedCoins) s
                  \<and> element_ok b1 (raw_receive db DB_COIN_POINT_RECEIVE IsPoint account mapModifiedCoins) r)
        \<and> (case balanceStaking of
              None \<Rightarrow> staking = None
            | Some (b0, b1) \<Rightarrow>
                \<exists>s r. staking = Some (s, r)
                  \<and> element_ok b0 (raw_send db DB_COIN_STAKING_SEND IsStaking account mapModifiedCoins) s
                  \<and> element_ok b1 (raw_receive db DB_COIN_STAKING_RECEIVE IsStaking account mapModifiedCoins) r))
   \<and> (GetAccountBalance env db account wantBind balancePoint balanceStaking mapModifiedCoins = Inl e
        \<longleftrightarrow> first_failure (computed_blocks env db account wantBind balancePoint balanceStaking mapModifiedCoins)
              = Some e)
   \<and> (list_ex negative_result
          (computed_blocks env db account wantBind balancePoint balanceStaking mapModifiedCoins) \<longrightarrow>
        (\<exists>e'. GetAccountBalance env db account wantBind balancePoint balanceStaking mapModifiedCoins = Inl e'))
   \<and> (list_all (\<lambda>r. \<not> isl r)
          (computed_blocks env db account wantBind balancePoint balanceStaking mapModifiedCoins)
        \<and> list_ex negative_result
          (computed_blocks env db account wantBind balancePoint balanceStaking mapModifiedCoins) \<longrightarrow>
        GetAccountBalance env db account wantBind balancePoint balanceStaking mapModifiedCoins
          = Inl AssertionFailed)"
proof (intro conjI impI)
  let ?G = "GetAccountBalance env db account wantBind balancePoint balanceStaking mapModifiedCoins"
  let ?blocks = "computed_blocks env db account wantBind balancePoint balanceStaking mapModifiedCoins"
  note f = GetAccountBalance_failure [of env db account wantBind balancePoint balanceStaking mapModifiedCoins]
  show iff: "?G = Inl e \<longleftrightarrow> first_failure ?blocks = Some e" for e
    unfolding f by (cases ?G) simp_all
  {
    assume "list_ex negative_result ?blocks"
    then have "first_failure ?blocks \<noteq> None" by (rule first_failure_negative)
    then obtain e' where "first_failure ?blocks = Some e'" by auto
    with iff [of e'] show "\<exists>e'. ?G = Inl e'" by blast
  }
  {
    assume "list_all (\<lambda>r. \<not> isl r) ?blocks \<and> list_ex negative_result ?blocks"
    then have "first_failure ?blocks = Some AssertionFailed" by (simp add: first_failure_assertion)
    with iff [of AssertionFailed] show "?G = Inl AssertionFailed" by blast
  }
  assume r: "?G = Inr (availableBalance, bind, point, staking)"
  note parts = GetAccountBalance_Inr [OF r]
  show "raw_available db account mapModifiedCoins = Inr availableBalance"
    using parts(1) by (rule checked_raw)
  show "0 \<le> availableBalance" using parts(1) by (rule checked_nonneg)
  show "if wantBind
        then \<exists>v. bind = Some v \<and> raw_bindplotter env db account mapModifiedCoins = Inr v \<and> 0 \<le> v
        else bind = None"
  proof (cases wantBind)
    case False
    with parts(2) show ?thesis by simp
  next
    case True
    with parts(2) obtain v where v: "checked (raw_bindplotter env db account mapModifiedCoins) = Inr v"
        "bind = Some v"
      by (cases "checked (raw_bindplotter env db account mapModifiedCoins)") auto
    from checked_raw [OF v(1)] checked_nonneg [OF v(1)] v(2) True show ?thesis by simp
  qed
  show "case balancePoint of
          None \<Rightarrow> point = None
        | Some (b0, b1) \<Rightarrow>
            \<exists>s r. point = Some (s, r)
              \<and> element_ok b0 (raw_send db DB_COIN_POINT_SEND IsPoint account mapModifiedCoins) s
              \<and> element_ok b1 (raw_receive db DB_COIN_POINT_RECEIVE IsPoint account mapModifiedCoins) r"
    using balance_pair_Inr [OF parts(3)]
    by (cases balancePoint) (auto simp: element_ok_def split: if_splits)
  show "case balanceStaking of
          None \<Rightarrow> staking = None
        | Some (b0, b1) \<Rightarrow>
            \<exists>s r. staking = Some (s, r)
              \<and> element_ok b0 (raw_send db DB_COIN_STAKING_SEND IsStaking account mapModifiedCoins) s
              \<and> element_ok b1 (raw_receive db DB_COIN_STAKING_RECEIVE IsStaking account mapModifiedCoins) r"
    using balance_pair_Inr [OF parts(4)]
    by (cases balanceStaking) (auto simp: element_ok_def split: if_splits)
qed

lemma index_db0_scan:
  "scan_prefix index_db0 p = (if p = DB_COIN_INDEX then [((41, 0), 7, VAmount 5)] else [])"
  by (simp add: scan_prefix_def index_db0_def db0_def)

lemma overflow_db0_scan:
  "scan_prefix overflow_db0 p
     = (if p = DB_COIN_POINT_RECEIVE
        then [((41, 0), 7, VAmount (2 ^ 62)), ((42, 0), 7, VAmount (2 ^ 62))] else [])"
  by (simp add: scan_prefix_def overflow_db0_def db0_def)

lemma overflow_db0_blocks:
  "computed_blocks env0 overflow_db0 7 False (Some (0, 0)) None []
     = [Inr 0, Inr 0, Inr (- (2 ^ 63))]"
  by (simp add: computed_blocks_def pair_blocks_def raw_available_def raw_send_def raw_receive_def
        scan_account_def overflow_db0_scan int64_def)

theorem GetAccountBalance_nonnegative_witness:
  "GetAccountBalance env0 index_db0 7 True (Some (0, 0)) (Some (0, - 1)) []
     = Inr (5, Some 0, Some (0, 0), Some (0, - 1))
   \<and> raw_available index_db0 7 [] = Inr 5
   \<and> (0::int) \<le> 5
   \<and> raw_bindplotter env0 index_db0 7 [] = Inr 0
   \<and> element_ok 0 (raw_send index_db0 DB_COIN_STAKING_SEND IsStaking 7 []) 0
   \<and> element_ok (- 1) (raw_receive index_db0 DB_COIN_STAKING_RECEIVE IsStaking 7 []) (- 1)
   \<and> computed_blocks env0 overflow_db0 7 False (Some (0, 0)) None [] = [Inr 0, Inr 0, Inr (- (2 ^ 63))]
   \<and> list_all (\<lambda>r. \<not> isl r) (computed_blocks env0 overflow_db0 7 False (Some (0, 0)) None [])
   \<and> list_ex negative_result (computed_blocks env0 overflow_db0 7 False (Some (0, 0)) None [])
   \<and> first_failure (computed_blocks env0 overflow_db0 7 False (Some (0, 0)) None []) = Some AssertionFailed
   \<and> GetAccountBalance env0 overflow_db0 7 False (Some (0, 0)) None [] = Inl AssertionFailed"
proof -
  have 1: "GetAccountBalance env0 index_db0 7 True (Some (0, 0)) (Some (0, - 1)) []
     = Inr (5, Some 0, Some (0, 0), Some (0, - 1))"
    by (simp add: GetAccountBalance_def balance_pair_def checked_def assert_nonneg_def raw_available_def
          raw_bindplotter_def raw_send_def raw_receive_def scan_account_def index_db0_scan int64_def)
  note t = GetAccountBalance_nonnegative
             [of env0 index_db0 7 True "Some (0, 0)" "Some (0, - 1)" "[]" 5 "Some 0" "Some (0, 0)" "Some (0, - 1)",
              THEN conjunct1, rule_format, OF 1]
  from t have 2: "raw_available index_db0 7 [] = Inr 5" and 3: "(0::int) \<le> 5"
    and 4: "raw_bindplotter env0 index_db0 7 [] = Inr 0"
    and 5: "element_ok 0 (raw_send index_db0 DB_COIN_STAKING_SEND IsStaking 7 []) 0"
    and 6: "element_ok (- 1) (raw_receive index_db0 DB_COIN_STAKING_RECEIVE IsStaking 7 []) (- 1)"
    by simp_all
  note b = overflow_db0_blocks
  have 7: "list_all (\<lambda>r. \<not> isl r) (computed_blocks env0 overflow_db0 7 False (Some (0, 0)) None [])"
    by (simp add: b)
  have 8: "list_ex negative_result (computed_blocks env0 overflow_db0 7 False (Some (0, 0)) None [])"
    by (simp add: b negative_result_def)
  note u = GetAccountBalance_nonnegative
             [of env0 overflow_db0 7 False "Some (0, 0)" None "[]" _ _ _ _ AssertionFailed]
  from u 7 8 have 10: "GetAccountBalance env0 overflow_db0 7 False (Some (0, 0)) None [] = Inl AssertionFailed"
    by blast
  with u have 9: "first_failure (computed_blocks env0 overflow_db0 7 False (Some (0, 0)) None [])
      = Some AssertionFailed" by blast
  from 1 2 3 4 5 6 b 7 8 9 10 show ?thesis by (simp only: simp_thms)
qed

text \<open>
  C9, as stated, fails: an element of the point array that holds \<open>-1\<close> on entry is
  skipped (line 682), and the array comes back with \<open>-1\<close> in it.
\<close>

theorem skipped_element_stays_negative:
  "GetAccountBalance env0 index_db0 7 False (Some (- 1, 0)) None [] = Inr (5, None, Some (- 1, 0), None)
   \<and> (- 1 :: int) < 0"
  by (simp add: GetAccountBalance_def balance_pair_def checked_def assert_nonneg_def raw_available_def
        raw_receive_def scan_account_def index_db0_scan int64_def)

lemma epoch_db0_scan:
  "scan_prefix epoch_db0 DB_COIN_STAKING_RECEIVE
     = [((41, 0), 21, VAmount 1000), ((43, 0), 21, VAmount 300)]"
  by (simp add: scan_prefix_def epoch_db0_def epoch_store0_def db0_def)

lemma epoch_db0_staking:
  "load_staking env_epoch epoch_db0 120 [(41, 0), (43, 0)] [] []
     = Inr ([(21, [(7, CUserStatus 300 0)])], [(21, (41, 0))])"
  by (simp add: epoch_db0_def epoch_store0_def db0_def db_Read_def coin0_def env_epoch_def env0_def
        params0_def uint32_def get_or_def)

lemma epoch_db0_prev:
  "load_prev_epoch env_epoch epoch_db0 chain_epoch [(21, [(7, CUserStatus 300 0)])]
     = Inr [(21, [(7, CUserStatus 300 80)])]"
proof -
  have r: "sum_rewards env_epoch (nat (nSaturnEpockBlocks (consensus env_epoch))) chain_epoch []
             = Inr ([(21, CPoolStatus 0 40)], [block0 3 110 21])"
    by (simp add: chain_epoch_def env_epoch_def env0_def params0_def block0_def eval_nat_numeral)
  show ?thesis
    unfolding load_prev_epoch_def
    apply (simp add: r)
    apply (simp add: chain_epoch_def env_epoch_def env0_def params0_def block0_def epoch_db0_def
        epoch_store0_def db0_def db_Read_def db_Exists_def load_prev_pool_def load_prev_user_def
        get_or_def Let_def CalcStakePoolUserReward_def signed_divide_int_def)
    done
qed

lemma epoch_db0_snapshot:
  "write_snapshot env_epoch 9 120 [(21, (41, 0))] [(21, [(7, CUserStatus 300 80)])] epoch_db0
     = WriteBatch BySnapshot
         [OpWrite (CoinEntry (37, 0)) (VCoin (pending_coin 80 120 7)),
          OpWrite (StakingPoolUsersEntry 9 21) (VUsers [StakingPoolUser 7 300 80]),
          OpWrite (StakingPoolEntry 9) (VPools [StakingPool 21 (41, 0) 300])] epoch_db0"
  by (simp add: write_snapshot_def flush_if_large_def std_sort_def get_or_def env_epoch_def env0_def)

lemma epoch_commit:
  "BatchWrite env_epoch [] 9 epoch_db0 = Inr epoch_db1"
proof -
  have t: "old_tip_of epoch_db0 9 = Inr 0"
    by (simp add: old_tip_of_def GetBestBlock_def GetHeadBlocks_def db_Read_def epoch_db0_def
          epoch_store0_def db0_def)
  have l: "BatchWrite_loop env_epoch [] (marker_ops 9 0) epoch_db0 = (marker_ops 9 0, epoch_db0)"
    by simp
  have c: "LookupBlockIndex env_epoch 9 = chain_epoch" by (simp add: env_epoch_def)
  have f: "filter_pools [(21, (41, 0))] [(21::nat, [(7::nat, CUserStatus 300 0)])]
             = [(21, [(7, CUserStatus 300 0)])]"
    by (simp add: filter_pools_def)
  have e1: "0 < nSaturnEpockBlocks (consensus env_epoch)"
    by (simp add: env_epoch_def env0_def params0_def)
  have e2: "epoch_boundary (consensus env_epoch) (blockHeight (block0 9 120 21))"
    by (simp add: env_epoch_def env0_def params0_def block0_def epoch_boundary_def)
  have h: "blockHeight (block0 9 120 21) = 120" "GetBlockHash (block0 9 120 21) = 9"
    by (simp_all add: block0_def)
  have m: "map fst [((41::nat, 0::nat), 21::nat, VAmount 1000), ((43, 0), 21, VAmount 300)] = [(41, 0), (43, 0)]"
    by simp
  have s: "TrySnapshotStakingPoolStatus env_epoch chain_epoch epoch_db0
      = Inr (WriteBatch BySnapshot
               [OpWrite (CoinEntry (37, 0)) (VCoin (pending_coin 80 120 7)),
                OpWrite (StakingPoolUsersEntry 9 21) (VUsers [StakingPoolUser 7 300 80]),
                OpWrite (StakingPoolEntry 9) (VPools [StakingPool 21 (41, 0) 300])] epoch_db0)"
    unfolding chain_epoch_def
    by (simp only: TrySnapshot_due [OF e1 e2] h epoch_db0_scan m epoch_db0_staking sum.case prod.case f
          epoch_db0_prev [unfolded chain_epoch_def] epoch_db0_snapshot)
  have w: "WriteBatch ByBatchWrite (marker_ops 9 0 @ final_ops 9)
             (WriteBatch BySnapshot
               [OpWrite (CoinEntry (37, 0)) (VCoin (pending_coin 80 120 7)),
                OpWrite (StakingPoolUsersEntry 9 21) (VUsers [StakingPoolUser 7 300 80]),
                OpWrite (StakingPoolEntry 9) (VPools [StakingPool 21 (41, 0) 300])] epoch_db0)
      = epoch_db1"
    by (simp add: WriteBatch_def marker_ops_def final_ops_def epoch_db1_def epoch_db0_def epoch_store0_def
          db0_def del_def)
  show ?thesis
    by (simp add: BatchWrite_def t BatchWrite_from_tip_def l c s w)
qed

lemma mismatch_commit:
  "BatchWrite env0 mismatch_delta 9 index_db0 = Inr mismatch_db1"
proof -
  have t: "old_tip_of index_db0 9 = Inr 0"
    by (simp add: old_tip_of_def GetBestBlock_def GetHeadBlocks_def db_Read_def index_db0_def db0_def)
  have l: "BatchWrite_loop env0 mismatch_delta (marker_ops 9 0) index_db0
      = ([], WriteBatch ByBatchWrite
               [OpErase DB_BEST_BLOCK, OpWrite DB_HEAD_BLOCKS (VHashes [9, 0]),
                OpErase (CoinEntry (41, 0)), OpErase (CoinIndexEntry (41, 0) 8)] index_db0)"
    by (simp add: mismatch_delta_def marker_ops_def coin_ops_def dirty0_def coin0_def env0_def
          IsBindPlotter_def IsPoint_def IsStaking_def)
  have s: "TrySnapshotStakingPoolStatus env0 (LookupBlockIndex env0 9) db = Inr db" for db
    by (simp add: TrySnapshotStakingPoolStatus_def env0_def params0_def block0_def)
  have w: "WriteBatch ByBatchWrite (final_ops 9)
             (WriteBatch ByBatchWrite
               [OpErase DB_BEST_BLOCK, OpWrite DB_HEAD_BLOCKS (VHashes [9, 0]),
                OpErase (CoinEntry (41, 0)), OpErase (CoinIndexEntry (41, 0) 8)] index_db0)
      = mismatch_db1"
    by (simp add: WriteBatch_def final_ops_def mismatch_db1_def index_db0_def db0_def del_def)
  show ?thesis
    by (simp add: BatchWrite_def t BatchWrite_from_tip_def l s w)
qed

text \<open>
  C1, as stated, fails, in three ways. (1) A commit of a new coin that has a point
  payload and no owner writes the coin and no index record (lines 454 and 472 guard
  every index operation by the owner): the coin is live, and neither the send nor the
  receive record its payload implies exists. (2) A commit at an epoch boundary takes the
  staking snapshot, which writes the withdrawal coin \<open>(37, 0)\<close> of account 7 and no
  account index record for it (lines 1107 to 1110). (3) A commit erases the index records
  named by the delta's copy of a spent coin (lines 455 to 466): where that copy names
  another owner than the stored coin has, the stored coin's account record stays behind
  for a coin that is gone.
\<close>

theorem BatchWrite_breaks_index_consistency:
  "index_consistent claimed_index_records (db0 [])
   \<and> BatchWrite env0 unowned_delta 9 (db0 []) = Inr unowned_db
   \<and> db_Read unowned_db (CoinEntry (11, 0)) = Some (VCoin (coin0 5 0 (PointPayload 8 5) False))
   \<and> \<not> db_Exists unowned_db (PointSendEntry (11, 0) 0)
   \<and> \<not> db_Exists unowned_db (PointReceiveEntry (11, 0) 8)
   \<and> \<not> index_consistent claimed_index_records unowned_db
   \<and> index_consistent claimed_index_records epoch_db0
   \<and> BatchWrite env_epoch [] 9 epoch_db0 = Inr epoch_db1
   \<and> db_Read epoch_db1 (CoinEntry (37, 0)) = Some (VCoin (pending_coin 80 120 7))
   \<and> outAccountID (pending_coin 80 120 7) = 7
   \<and> \<not> db_Exists epoch_db1 (CoinIndexEntry (37, 0) 7)
   \<and> \<not> index_consistent claimed_index_records epoch_db1
   \<and> index_consistent claimed_index_records index_db0
   \<and> BatchWrite env0 mismatch_delta 9 index_db0 = Inr mismatch_db1
   \<and> db_Read mismatch_db1 (CoinEntry (41, 0)) = None
   \<and> db_Exists mismatch_db1 (CoinIndexEntry (41, 0) 7)
   \<and> \<not> index_consistent claimed_index_records mismatch_db1"
proof -
  have a1: "index_consistent claimed_index_records (db0 [])"
    by (simp add: index_consistent_def db0_def)
  have a3: "db_Read unowned_db (CoinEntry (11, 0)) = Some (VCoin (coin0 5 0 (PointPayload 8 5) False))"
    by (simp add: db_Read_def unowned_db_def)
  have a4: "\<not> db_Exists unowned_db (PointSendEntry (11, 0) 0)"
    by (simp add: db_Exists_def db_Read_def unowned_db_def)
  have a5: "\<not> db_Exists unowned_db (PointReceiveEntry (11, 0) 8)"
    by (simp add: db_Exists_def db_Read_def unowned_db_def)
  have a6: "\<not> index_consistent claimed_index_records unowned_db"
    by (simp add: index_consistent_def claimed_index_records_def unowned_db_def db_Read_def coin0_def)
  have b1: "index_consistent claimed_index_records epoch_db0"
    by (simp add: index_consistent_def claimed_index_records_def epoch_db0_def epoch_store0_def db0_def
          db_Read_def coin0_def)
  have b3: "db_Read epoch_db1 (CoinEntry (37, 0)) = Some (VCoin (pending_coin 80 120 7))"
    by (simp add: db_Read_def epoch_db1_def epoch_store0_def)
  have b4: "outAccountID (pending_coin 80 120 7) = 7" by (simp add: pending_coin_def)
  have b5: "\<not> db_Exists epoch_db1 (CoinIndexEntry (37, 0) 7)"
    by (simp add: db_Exists_def epoch_db1_def epoch_store0_def)
  have b6: "\<not> index_consistent claimed_index_records epoch_db1"
    by (simp add: index_consistent_def claimed_index_records_def epoch_db1_def epoch_store0_def
          db_Read_def coin0_def pending_coin_def)
  have c1: "index_consistent claimed_index_records index_db0"
    by (simp add: index_consistent_def claimed_index_records_def index_db0_def db0_def db_Read_def coin0_def)
  have c3: "db_Read mismatch_db1 (CoinEntry (41, 0)) = None"
    by (simp add: db_Read_def mismatch_db1_def)
  have c4: "db_Exists mismatch_db1 (CoinIndexEntry (41, 0) 7)"
    by (simp add: db_Exists_def mismatch_db1_def)
  have c5: "\<not> index_consistent claimed_index_records mismatch_db1"
    by (simp add: index_consistent_def claimed_index_records_def mismatch_db1_def db_Read_def)
  from a1 unowned_commit a3 a4 a5 a6 b1 epoch_commit b3 b4 b5 b6 c1 mismatch_commit c3 c4 c5
  show ?thesis by (simp only: simp_thms)
qed

end
